theory Spec2Isabelle
  imports Main "HOL-Library.Char_ord" "HOL-Library.List_Lexorder"
begin

section \<open>JavaScript values\<close>

text \<open>
  The handlers work on parsed JSON (request bodies, header objects, vault records).
  Numbers are restricted to integers; an object is the list of its own enumerable
  properties in the order \<open>Object.keys\<close> enumerates them (keys are distinct, as
  \<open>JSON.parse\<close> produces them). Properties inherited from a prototype are not part
  of the model.
\<close>

datatype js =
    JUndefined
  | JNull
  | JBool bool
  | JNum int
  | JStr string
  | JArr "js list"
  | JObj "(string \<times> js) list"

type_synonym obj = "(string \<times> js) list"

text \<open>Every \<open>throw\<close> of the modelled code is a value of this type.\<close>

datatype error =
    TypeError
  | InvalidEnvironment string
  | TokenizationFailed string
  | DetokenizationFailed string
  | QueryFailed string
  | TokenizeByotFailed string
  | MissingTable
  | MissingColumnName
  | RecordsNotArray
  | RecordsEmpty
  | FieldsMissing nat
  | TokensMissing nat
  | FieldsEmpty nat
  | TokensEmpty nat
  | KeysMismatch nat

text \<open>\<open>!v\<close> is \<open>\<not> truthy v\<close>.\<close>

fun truthy :: "js \<Rightarrow> bool" where
  "truthy JUndefined = False"
| "truthy JNull = False"
| "truthy (JBool b) = b"
| "truthy (JNum n) = (n \<noteq> 0)"
| "truthy (JStr s) = (s \<noteq> [])"
| "truthy (JArr xs) = True"
| "truthy (JObj kvs) = True"

text \<open>\<open>typeof v === 'object'\<close>: null, arrays and objects.\<close>

fun typeof_object :: "js \<Rightarrow> bool" where
  "typeof_object JNull = True"
| "typeof_object (JArr xs) = True"
| "typeof_object (JObj kvs) = True"
| "typeof_object v = False"

fun isArray :: "js \<Rightarrow> bool" where
  "isArray (JArr xs) = True"
| "isArray v = False"

text \<open>\<open>typeof v === 'string'\<close>.\<close>

fun isString :: "js \<Rightarrow> bool" where
  "isString (JStr s) = True"
| "isString v = False"

text \<open>The elements of an array.\<close>

fun elements :: "js \<Rightarrow> js list" where
  "elements (JArr xs) = xs"
| "elements v = []"

definition digit_char :: "nat \<Rightarrow> char" where
  "digit_char d = char_of (48 + d)"

function show_nat :: "nat \<Rightarrow> string" where
  "show_nat n = (if n < 10 then [digit_char n] else show_nat (n div 10) @ [digit_char (n mod 10)])"
  by pat_completeness auto
termination
  by (relation "measure (\<lambda>n. n)") auto

declare show_nat.simps [simp del]

text \<open>
  The own enumerable properties of a value: an array has its indices as keys, a string
  its character positions, the other primitives have none.
\<close>

fun own_props :: "js \<Rightarrow> obj" where
  "own_props (JObj kvs) = kvs"
| "own_props (JArr xs) = zip (map show_nat [0..<length xs]) xs"
| "own_props (JStr s) = zip (map show_nat [0..<length s]) (map (\<lambda>c. JStr [c]) s)"
| "own_props v = []"

definition Object_keys :: "js \<Rightarrow> string list" where
  "Object_keys v = map fst (own_props v)"

text \<open>\<open>o[k]\<close> on an object: the property, or \<open>undefined\<close>.\<close>

definition property :: "obj \<Rightarrow> string \<Rightarrow> js" where
  "property kvs k = (case map_of kvs k of None \<Rightarrow> JUndefined | Some v \<Rightarrow> v)"

text \<open>\<open>v.k\<close> on any value: reading a property of \<open>null\<close> or \<open>undefined\<close> throws.\<close>

fun get_prop :: "js \<Rightarrow> string \<Rightarrow> error + js" where
  "get_prop JUndefined k = Inl TypeError"
| "get_prop JNull k = Inl TypeError"
| "get_prop v k = Inr (property (own_props v) k)"

text \<open>
  \<open>String.prototype.toLowerCase\<close>. A character of the model is a code point from
  U+0000 to U+00FF. Of these, the capital letters are \<open>A\<close> to \<open>Z\<close> and U+00C0 to
  U+00DE without the multiplication sign U+00D7; the lower-case letter of each is 32
  code points higher. Every other character is kept.
\<close>

definition lower_char :: "char \<Rightarrow> char" where
  "lower_char c =
     (if (CHR ''A'' \<le> c \<and> c \<le> CHR ''Z'') \<or> (CHR 0xC0 \<le> c \<and> c \<le> CHR 0xDE \<and> c \<noteq> CHR 0xD7)
      then char_of (of_char c + (32::nat)) else c)"

definition toLowerCase :: "string \<Rightarrow> string" where
  "toLowerCase s = map lower_char s"

text \<open>\<open>Array.prototype.join\<close> on an array of strings.\<close>

fun join :: "string \<Rightarrow> string list \<Rightarrow> string" where
  "join sep [] = []"
| "join sep [x] = x"
| "join sep (x # y # ys) = x @ sep @ join sep (y # ys)"

section \<open>Header lookup (lambda/utils/headers.js)\<close>

text \<open>
  \<open>getHeader(headers, name)\<close>: \<open>null\<close> unless \<open>headers\<close> is a truthy object;
  otherwise the first own key whose lower-casing is the lower-cased name is looked for
  (\<open>Array.prototype.find\<close>, which gives \<open>undefined\<close> when there is none), and the
  result is \<open>key ? headers[key] : null\<close>: the truthiness of the key that was found
  decides, and the empty string is falsy.
\<close>

definition getHeader :: "js \<Rightarrow> string \<Rightarrow> js" where
  "getHeader headers name =
     (if \<not> truthy headers \<or> \<not> typeof_object headers then JNull
      else let lowerName = toLowerCase name in
        (case find (\<lambda>k. toLowerCase k = lowerName) (Object_keys headers) of
           None \<Rightarrow> JNull
         | Some key \<Rightarrow> if key \<noteq> [] then property (own_props headers) key else JNull))"

section \<open>Request validation (lambda/handler.js)\<close>

text \<open>
  The body of the \<open>forEach\<close> callback of \<open>validateTokenizeByotRequest\<close>, for the
  record at position \<open>index\<close>.
\<close>

definition checkByotRecord :: "js \<Rightarrow> nat \<Rightarrow> error + unit" where
  "checkByotRecord record index =
     (case get_prop record ''fields'' of
        Inl e \<Rightarrow> Inl e
      | Inr fields \<Rightarrow>
          if \<not> truthy fields \<or> \<not> typeof_object fields then Inl (FieldsMissing index)
          else (case get_prop record ''tokens'' of
             Inl e \<Rightarrow> Inl e
           | Inr tokens \<Rightarrow>
               if \<not> truthy tokens \<or> \<not> typeof_object tokens then Inl (TokensMissing index)
               else if length (Object_keys fields) = 0 then Inl (FieldsEmpty index)
               else if length (Object_keys tokens) = 0 then Inl (TokensEmpty index)
               else let fieldKeys = sort (Object_keys fields); tokenKeys = sort (Object_keys tokens) in
                 if join '','' fieldKeys \<noteq> join '','' tokenKeys then Inl (KeysMismatch index)
                 else Inr ()))"

text \<open>\<open>body.records.forEach\<close>: the records in order, stopping at the first throw.\<close>

fun forEachByot :: "js list \<Rightarrow> nat \<Rightarrow> error + unit" where
  "forEachByot [] index = Inr ()"
| "forEachByot (record # rest) index =
     (case checkByotRecord record index of
        Inl e \<Rightarrow> Inl e
      | Inr u \<Rightarrow> forEachByot rest (Suc index))"

definition validateTokenizeByotRequest :: "js \<Rightarrow> error + unit" where
  "validateTokenizeByotRequest body =
     (case get_prop body ''records'' of
        Inl e \<Rightarrow> Inl e
      | Inr records \<Rightarrow>
          if \<not> truthy records \<or> \<not> isArray records then Inl RecordsNotArray
          else if length (elements records) = 0 then Inl RecordsEmpty
          else forEachByot (elements records) 0)"

section \<open>The vault SDK boundary (skyflow-node)\<close>

text \<open>
  \<open>ToString\<close> of a value, as a template literal or a computed property key applies
  it (integers in plain decimal notation).
\<close>

fun toString :: "js \<Rightarrow> string" where
  "toString JUndefined = ''undefined''"
| "toString JNull = ''null''"
| "toString (JBool b) = (if b then ''true'' else ''false'')"
| "toString (JNum n) = (if n < 0 then ''-'' @ show_nat (nat (- n)) else show_nat (nat n))"
| "toString (JStr s) = s"
| "toString (JArr xs) =
     join '','' (map (\<lambda>x. if x = JUndefined \<or> x = JNull then [] else toString x) xs)"
| "toString (JObj kvs) = ''[object Object]''"

text \<open>
  Modelled from the spec: the members of the SDK's \<open>RedactionType\<close> enum. The SDK is
  not part of the repository; the spec and the validator name the four values.
\<close>

datatype RedactionType = DEFAULT | PLAIN_TEXT | MASKED | REDACTED

text \<open>
  The enum is an ordinary object, so a property access on it also finds what every
  object inherits from \<open>Object.prototype\<close>. These are the names of the properties of
  \<open>Object.prototype\<close>; the value of each is a function, that of \<open>__proto__\<close> is the
  prototype object itself, so every one of them is truthy and none is a member of
  the enum.
\<close>

definition Object_prototype_names :: "string list" where
  "Object_prototype_names =
     [''constructor'', ''hasOwnProperty'', ''isPrototypeOf'', ''propertyIsEnumerable'',
      ''toLocaleString'', ''toString'', ''valueOf'', ''__proto__'',
      ''__defineGetter__'', ''__defineSetter__'', ''__lookupGetter__'', ''__lookupSetter__'']"

text \<open>
  What a property access on the enum can give: a member, or the property of that name
  inherited from \<open>Object.prototype\<close>.
\<close>

datatype redaction = Member RedactionType | Inherited string

text \<open>
  Modelled from the spec: \<open>RedactionType[name]\<close>. The four members are the enum's own
  properties; any other name is looked up in \<open>Object.prototype\<close>; \<open>None\<close> is
  \<open>undefined\<close>.
\<close>

definition RedactionType_property :: "string \<Rightarrow> redaction option" where
  "RedactionType_property name =
     (if name = ''DEFAULT'' then Some (Member DEFAULT)
      else if name = ''PLAIN_TEXT'' then Some (Member PLAIN_TEXT)
      else if name = ''MASKED'' then Some (Member MASKED)
      else if name = ''REDACTED'' then Some (Member REDACTED)
      else if name \<in> set Object_prototype_names then Some (Inherited name)
      else None)"

datatype TokenMode = ENABLE

datatype sdk_credentials = ApiKeyCredentials string | CredentialsString string

record vault_config =
  vc_vaultId :: string
  vc_clusterId :: string
  vc_env :: string
  vc_credentials :: sdk_credentials

text \<open>\<open>InsertOptions\<close>: a field is \<open>None\<close> until its setter is called.\<close>

record insert_options =
  returnTokens :: "bool option"
  upsertColumn :: "js option"
  continueOnError :: "bool option"
  tokenMode :: "TokenMode option"
  customTokens :: "js list option"

definition new_InsertOptions :: insert_options where
  "new_InsertOptions =
     \<lparr>returnTokens = None, upsertColumn = None, continueOnError = None,
      tokenMode = None, customTokens = None\<rparr>"

text \<open>One element of the array given to \<open>DetokenizeRequest\<close>: \<open>{token, redactionType?}\<close>.\<close>

record detokenize_data =
  dd_token :: js
  dd_redactionType :: "redaction option"

text \<open>
  The responses of the vault; a field that may be missing (\<open>undefined\<close> or \<open>null\<close>)
  is an option.
\<close>

record insert_response =
  insertedFields :: "obj list option"
  insert_errors :: "js list option"

record detokenize_response =
  detokenizedFields :: "obj list option"
  detokenize_errors :: "js list option"

record query_response =
  query_fields :: "obj list option"
  query_errors :: "js list option"

text \<open>\<open>xs || []\<close> on such a field.\<close>

definition orEmpty :: "'a list option \<Rightarrow> 'a list" where
  "orEmpty xs = (case xs of None \<Rightarrow> [] | Some ys \<Rightarrow> ys)"

text \<open>
  The vault itself is a parameter: three calls on a client handle and a vault id, each
  of which answers or rejects with an error message, and may change the vault's
  state \<open>'w\<close>.
\<close>

record 'w sdk =
  sdk_insert :: "nat \<Rightarrow> string \<Rightarrow> string \<Rightarrow> js list \<Rightarrow> insert_options \<Rightarrow> 'w
                 \<Rightarrow> (string + insert_response) \<times> 'w"
  sdk_detokenize :: "nat \<Rightarrow> string \<Rightarrow> detokenize_data list \<Rightarrow> bool \<Rightarrow> 'w
                 \<Rightarrow> (string + detokenize_response) \<times> 'w"
  sdk_query :: "nat \<Rightarrow> string \<Rightarrow> string \<Rightarrow> 'w \<Rightarrow> (string + query_response) \<times> 'w"

text \<open>The requests the vault has received, for the claims about what is sent to it.\<close>

datatype sdk_call =
    InsertCall nat string string "js list" insert_options
  | DetokenizeCall nat string "detokenize_data list" bool
  | QueryCall nat string string

section \<open>SkyflowClient (lambda/skyflow-client.js)\<close>

text \<open>
  The configured batch size, as the configuration loader can produce it: missing at
  some level of \<open>batching?.tokenize?.batchSize\<close>, \<open>null\<close>, \<open>NaN\<close> (\<open>parseInt\<close> of
  a text that is no number) or an integer.
\<close>

datatype conf_value = Absent | CNull | CNaN | CNum int

record batching =
  tokenize_batchSize :: conf_value
  detokenize_batchSize :: conf_value

text \<open>\<open>v || 25\<close>: every falsy value gives 25.\<close>

definition or25 :: "conf_value \<Rightarrow> int" where
  "or25 v = (case v of CNum n \<Rightarrow> if n \<noteq> 0 then n else 25 | _ \<Rightarrow> 25)"

record config_credentials =
  apiKey :: "string option"
  serialized :: string

text \<open>
  The client object (\<open>this.credentials\<close>, \<open>this.batching\<close>, \<open>this.clients\<close>) together
  with its surroundings: \<open>constructed\<close> lists every \<open>new Skyflow(...)\<close> in order (a
  handle is the position of its construction), \<open>calls\<close> every request made to the
  vault, and \<open>world\<close> is the vault's state.
\<close>

record 'w SkyflowClient =
  this_credentials :: config_credentials
  this_batching :: batching
  this_clients :: "string \<rightharpoonup> nat"
  constructed :: "vault_config list"
  calls :: "sdk_call list"
  world :: 'w

text \<open>\<open>_getClient(clusterId, vaultId, env = 'PROD')\<close>.\<close>

definition getClient ::
  "string \<Rightarrow> string \<Rightarrow> string option \<Rightarrow> 'w SkyflowClient \<Rightarrow> (error + nat) \<times> 'w SkyflowClient" where
  "getClient clusterId vaultId envArg this =
     (let env = (case envArg of None \<Rightarrow> ''PROD'' | Some e \<Rightarrow> e) in
      if env \<notin> set [''SANDBOX'', ''PROD''] then (Inl (InvalidEnvironment env), this)
      else let clientKey = clusterId @ '':'' @ vaultId @ '':'' @ env in
        (case this_clients this clientKey of
           Some client \<Rightarrow> (Inr client, this)
         | None \<Rightarrow>
             let credentials =
                   (case apiKey (this_credentials this) of
                      None \<Rightarrow> CredentialsString (serialized (this_credentials this))
                    | Some k \<Rightarrow>
                        if k \<noteq> [] then ApiKeyCredentials k
                        else CredentialsString (serialized (this_credentials this)));
                 vaultConfig = \<lparr>vc_vaultId = vaultId, vc_clusterId = clusterId, vc_env = env,
                                vc_credentials = credentials\<rparr>;
                 client = length (constructed this)
             in (Inr client,
                 this\<lparr>this_clients := (this_clients this)(clientKey \<mapsto> client),
                      constructed := constructed this @ [vaultConfig]\<rparr>)))"

text \<open>What a batch call and a whole operation return: \<open>{data, errors}\<close>, \<open>errors\<close> possibly \<open>null\<close>.\<close>

record ('r, 'e) batch_result =
  data :: "'r list"
  errors :: "'e list option"

subsection \<open>Batched dispatch\<close>

text \<open>
  \<open>tokenize\<close>, \<open>detokenize\<close> and \<open>tokenizeByot\<close> repeat the same text after they
  have read their batch size: the direct call when the input fits one batch, the loop
  that slices the input, and the loop that awaits the batch call on each slice. Only
  the batch call differs, so the three are modelled once, with the batch call
  \<open>invoke\<close> as a parameter.

  \<open>Array.prototype.slice(start, stop)\<close>: a negative index counts from the end, and
  both are clamped to the array.
\<close>

definition slice :: "'a list \<Rightarrow> int \<Rightarrow> int \<Rightarrow> 'a list" where
  "slice xs start stop =
     (let len = int (length xs);
          k = (if start < 0 then max (len + start) 0 else min start len);
          final = (if stop < 0 then max (len + stop) 0 else min stop len)
      in take (nat (final - k)) (drop (nat k) xs))"

text \<open>
  \<open>for (let i = 0; i < records.length; i += batchSize) batches.push(records.slice(i, i + batchSize))\<close>.
  Nothing in the loop makes \<open>batchSize\<close> positive, so it need not end: the result is
  \<open>None\<close> when it runs forever.
\<close>

partial_function (option) splitBatches ::
  "int \<Rightarrow> 'a list \<Rightarrow> int \<Rightarrow> 'a list list \<Rightarrow> 'a list list option" where
  "splitBatches batchSize records i batches =
     (if i < int (length records)
      then splitBatches batchSize records (i + batchSize)
             (batches @ [slice records i (i + batchSize)])
      else Some batches)"

declare splitBatches.simps [code]

text \<open>
  \<open>for (let i = 0; i < batches.length; i++) { try { ... } catch (error) { throw error } }\<close>:
  each batch is awaited before the next one starts; a rejected batch call ends the loop
  with its error, a fulfilled one appends its \<open>data\<close> to \<open>results\<close> and, when its
  \<open>errors\<close> is truthy, its \<open>errors\<close> to \<open>errors\<close>.
\<close>

fun processBatches ::
  "('a list \<Rightarrow> 's \<Rightarrow> (error + ('r, 'e) batch_result) \<times> 's) \<Rightarrow> 'a list list \<Rightarrow> 'r list \<Rightarrow> 'e list
     \<Rightarrow> 's \<Rightarrow> (error + 'r list \<times> 'e list) \<times> 's" where
  "processBatches invoke [] results errs s = (Inr (results, errs), s)"
| "processBatches invoke (batch # rest) results errs s =
     (case invoke batch s of
        (Inl e, s') \<Rightarrow> (Inl e, s')
      | (Inr batchResult, s') \<Rightarrow>
          processBatches invoke rest (results @ data batchResult)
            (errs @ (case errors batchResult of None \<Rightarrow> [] | Some es \<Rightarrow> es)) s')"

definition dispatch ::
  "int \<Rightarrow> ('a list \<Rightarrow> 's \<Rightarrow> (error + ('r, 'e) batch_result) \<times> 's) \<Rightarrow> 'a list \<Rightarrow> 's
     \<Rightarrow> ((error + ('r, 'e) batch_result) \<times> 's) option" where
  "dispatch batchSize invoke records s =
     (if int (length records) \<le> batchSize then Some (invoke records s)
      else (case splitBatches batchSize records 0 [] of
              None \<Rightarrow> None
            | Some batches \<Rightarrow>
                Some (case processBatches invoke batches [] [] s of
                        (Inl e, s') \<Rightarrow> (Inl e, s')
                      | (Inr (results, errs), s') \<Rightarrow>
                          (Inr \<lparr>data = results,
                                errors = (if length errs > 0 then Some errs else None)\<rparr>, s'))))"

subsection \<open>The batch calls\<close>

text \<open>
  \<open>_tokenizeBatch\<close>. The client is resolved outside the \<open>try\<close>, so its error is
  thrown as it is; a rejected insert is wrapped.
\<close>

definition tokenizeBatch ::
  "'w sdk \<Rightarrow> string \<Rightarrow> string \<Rightarrow> string \<Rightarrow> obj \<Rightarrow> string \<Rightarrow> obj list \<Rightarrow> 'w SkyflowClient
     \<Rightarrow> (error + (obj, js) batch_result) \<times> 'w SkyflowClient" where
  "tokenizeBatch vault clusterId vaultId table options env records this =
     (case getClient clusterId vaultId (Some env) this of
        (Inl e, this1) \<Rightarrow> (Inl e, this1)
      | (Inr client, this1) \<Rightarrow>
          let upsert = property options ''upsert'';
              insertOptions0 = new_InsertOptions\<lparr>returnTokens := Some True\<rparr>;
              insertOptions1 =
                (if truthy upsert then
                   (if isString upsert then insertOptions0\<lparr>upsertColumn := Some upsert\<rparr>
                    else if isArray upsert \<and> length (elements upsert) > 0
                      then insertOptions0\<lparr>upsertColumn := Some (hd (elements upsert))\<rparr>
                    else insertOptions0)
                 else insertOptions0);
              insertOptions = insertOptions1\<lparr>continueOnError := Some False\<rparr>;
              request = InsertCall client vaultId table (map JObj records) insertOptions
          in (case sdk_insert vault client vaultId table (map JObj records) insertOptions (world this1) of
                (Inl message, w) \<Rightarrow>
                  (Inl (TokenizationFailed message),
                   this1\<lparr>calls := calls this1 @ [request], world := w\<rparr>)
              | (Inr response, w) \<Rightarrow>
                  (Inr \<lparr>data = orEmpty (insertedFields response),
                        errors = insert_errors response\<rparr>,
                   this1\<lparr>calls := calls this1 @ [request], world := w\<rparr>)))"

text \<open>
  The array \<open>detokenizeData\<close> of \<open>_detokenizeBatch\<close>: \<open>redactionType\<close> is set on an
  element only when \<open>options.redactionType\<close> is truthy, to
  \<open>RedactionType[redactionType] || RedactionType.PLAIN_TEXT\<close>.
\<close>

definition detokenizeData :: "js \<Rightarrow> js list \<Rightarrow> detokenize_data list" where
  "detokenizeData redactionType tokens =
     map (\<lambda>token.
            if truthy redactionType
            then \<lparr>dd_token = token,
                  dd_redactionType =
                    Some (case RedactionType_property (toString redactionType) of
                            None \<Rightarrow> Member PLAIN_TEXT
                          | Some r \<Rightarrow> r)\<rparr>
            else \<lparr>dd_token = token, dd_redactionType = None\<rparr>) tokens"

definition detokenizeBatch ::
  "'w sdk \<Rightarrow> string \<Rightarrow> string \<Rightarrow> obj \<Rightarrow> string \<Rightarrow> js list \<Rightarrow> 'w SkyflowClient
     \<Rightarrow> (error + (obj, js) batch_result) \<times> 'w SkyflowClient" where
  "detokenizeBatch vault clusterId vaultId options env tokens this =
     (let redactionType = property options ''redactionType'' in
      case getClient clusterId vaultId (Some env) this of
        (Inl e, this1) \<Rightarrow> (Inl e, this1)
      | (Inr client, this1) \<Rightarrow>
          let request = DetokenizeCall client vaultId (detokenizeData redactionType tokens) True
          in (case sdk_detokenize vault client vaultId (detokenizeData redactionType tokens) True
                     (world this1) of
                (Inl message, w) \<Rightarrow>
                  (Inl (DetokenizationFailed message),
                   this1\<lparr>calls := calls this1 @ [request], world := w\<rparr>)
              | (Inr response, w) \<Rightarrow>
                  (Inr \<lparr>data = map (\<lambda>record. [(''token'', property record ''token''),
                                                (''value'', property record ''value'')])
                                  (orEmpty (detokenizedFields response)),
                        errors = detokenize_errors response\<rparr>,
                   this1\<lparr>calls := calls this1 @ [request], world := w\<rparr>)))"

text \<open>\<open>_tokenizeByotBatch\<close>.\<close>

definition tokenizeByotBatch ::
  "'w sdk \<Rightarrow> string \<Rightarrow> string \<Rightarrow> string \<Rightarrow> string \<Rightarrow> obj list \<Rightarrow> 'w SkyflowClient
     \<Rightarrow> (error + (obj, js) batch_result) \<times> 'w SkyflowClient" where
  "tokenizeByotBatch vault clusterId vaultId table env records this =
     (case getClient clusterId vaultId (Some env) this of
        (Inl e, this1) \<Rightarrow> (Inl e, this1)
      | (Inr client, this1) \<Rightarrow>
          let insertData = map (\<lambda>record. property record ''fields'') records;
              tokens = map (\<lambda>record. property record ''tokens'') records;
              insertOptions =
                new_InsertOptions\<lparr>tokenMode := Some ENABLE, customTokens := Some tokens,
                                  continueOnError := Some False\<rparr>;
              request = InsertCall client vaultId table insertData insertOptions
          in (case sdk_insert vault client vaultId table insertData insertOptions (world this1) of
                (Inl message, w) \<Rightarrow>
                  (Inl (TokenizeByotFailed message),
                   this1\<lparr>calls := calls this1 @ [request], world := w\<rparr>)
              | (Inr response, w) \<Rightarrow>
                  (Inr \<lparr>data = orEmpty (insertedFields response),
                        errors = insert_errors response\<rparr>,
                   this1\<lparr>calls := calls this1 @ [request], world := w\<rparr>)))"

subsection \<open>The operations\<close>

text \<open>
  An operation takes \<open>env\<close> as the caller gives it (\<open>None\<close> when it is left out, which
  the default parameter turns into \<open>'PROD'\<close>); records are record objects and
  \<open>options\<close> is an object, as the documentation of the methods has them.
\<close>

definition envOrDefault :: "string option \<Rightarrow> string" where
  "envOrDefault envArg = (case envArg of None \<Rightarrow> ''PROD'' | Some e \<Rightarrow> e)"

definition tokenize ::
  "'w sdk \<Rightarrow> string \<Rightarrow> string \<Rightarrow> string \<Rightarrow> obj list \<Rightarrow> obj \<Rightarrow> string option \<Rightarrow> 'w SkyflowClient
     \<Rightarrow> ((error + (obj, js) batch_result) \<times> 'w SkyflowClient) option" where
  "tokenize vault clusterId vaultId table records options envArg this =
     (let env = envOrDefault envArg;
          columnNames = (if length records > 0 then Object_keys (JObj (hd records)) else []);
          batchSize = or25 (tokenize_batchSize (this_batching this))
      in dispatch batchSize (tokenizeBatch vault clusterId vaultId table options env) records this)"

definition detokenize ::
  "'w sdk \<Rightarrow> string \<Rightarrow> string \<Rightarrow> js list \<Rightarrow> obj \<Rightarrow> string option \<Rightarrow> 'w SkyflowClient
     \<Rightarrow> ((error + (obj, js) batch_result) \<times> 'w SkyflowClient) option" where
  "detokenize vault clusterId vaultId tokens options envArg this =
     (let env = envOrDefault envArg;
          batchSize = or25 (detokenize_batchSize (this_batching this))
      in dispatch batchSize (detokenizeBatch vault clusterId vaultId options env) tokens this)"

definition tokenizeByot ::
  "'w sdk \<Rightarrow> string \<Rightarrow> string \<Rightarrow> string \<Rightarrow> obj list \<Rightarrow> string option \<Rightarrow> 'w SkyflowClient
     \<Rightarrow> ((error + (obj, js) batch_result) \<times> 'w SkyflowClient) option" where
  "tokenizeByot vault clusterId vaultId table records envArg this =
     (let env = envOrDefault envArg;
          batchSize = or25 (tokenize_batchSize (this_batching this))
      in dispatch batchSize (tokenizeByotBatch vault clusterId vaultId table env) records this)"

text \<open>
  \<open>query\<close>: one call, no batching. The rest pattern
  \<open>const { tokenizedData, ...cleanRecord } = record\<close> copies every own property of the
  row but \<open>tokenizedData\<close>, in order.
\<close>

definition query ::
  "'w sdk \<Rightarrow> string \<Rightarrow> string \<Rightarrow> string \<Rightarrow> string option \<Rightarrow> 'w SkyflowClient
     \<Rightarrow> (error + (obj, js) batch_result) \<times> 'w SkyflowClient" where
  "query vault clusterId vaultId sqlQuery envArg this =
     (let env = envOrDefault envArg in
      case getClient clusterId vaultId (Some env) this of
        (Inl e, this1) \<Rightarrow> (Inl e, this1)
      | (Inr client, this1) \<Rightarrow>
          let request = QueryCall client vaultId sqlQuery
          in (case sdk_query vault client vaultId sqlQuery (world this1) of
                (Inl message, w) \<Rightarrow>
                  (Inl (QueryFailed message),
                   this1\<lparr>calls := calls this1 @ [request], world := w\<rparr>)
              | (Inr response, w) \<Rightarrow>
                  (let cleanedResults =
                         map (\<lambda>record. filter (\<lambda>(k, v). k \<noteq> ''tokenizedData'') record)
                           (orEmpty (query_fields response))
                   in (Inr \<lparr>data = cleanedResults, errors = query_errors response\<rparr>,
                       this1\<lparr>calls := calls this1 @ [request], world := w\<rparr>))))"

section \<open>The row-indexed transport (lambda/snowflake-handler.js)\<close>

text \<open>
  The request configuration after the handler has checked that the cluster and vault
  ids are present; \<open>table\<close> and \<open>columnName\<close> are \<open>None\<close> when \<open>getHeader\<close> found
  nothing (\<open>null\<close>). A row \<open>[rowNumber, value]\<close> is a pair.
\<close>

record requestConfig =
  rc_clusterId :: string
  rc_vaultId :: string
  rc_table :: "string option"
  rc_columnName :: "string option"

text \<open>\<open>xs[index]\<close>: \<open>undefined\<close> beyond the end.\<close>

definition at_index :: "js list \<Rightarrow> nat \<Rightarrow> js" where
  "at_index xs index = (if index < length xs then xs ! index else JUndefined)"

text \<open>\<open>rowNumbers.map((rowNum, index) => [rowNum, results[index]])\<close>.\<close>

definition zipRows :: "js list \<Rightarrow> js list \<Rightarrow> (js \<times> js) list" where
  "zipRows rowNumbers results =
     map (\<lambda>(rowNum, index). (rowNum, at_index results index))
       (zip rowNumbers [0..<length rowNumbers])"

definition handleTokenize ::
  "'w sdk \<Rightarrow> (js \<times> js) list \<Rightarrow> requestConfig \<Rightarrow> 'w SkyflowClient
     \<Rightarrow> ((error + (js \<times> js) list) \<times> 'w SkyflowClient) option" where
  "handleTokenize vault rows rc this =
     (case rc_table rc of
        None \<Rightarrow> Some (Inl MissingTable, this)
      | Some table \<Rightarrow>
          if table = [] then Some (Inl MissingTable, this)
          else (case rc_columnName rc of
             None \<Rightarrow> Some (Inl MissingColumnName, this)
           | Some columnName \<Rightarrow>
               if columnName = [] then Some (Inl MissingColumnName, this)
               else
                 let rowNumbers = map fst rows;
                     values = map snd rows;
                     records = map (\<lambda>val. [(columnName, val)]) values
                 in (case tokenize vault (rc_clusterId rc) (rc_vaultId rc) table records [] None this of
                       None \<Rightarrow> None
                     | Some (Inl e, this1) \<Rightarrow> Some (Inl e, this1)
                     | Some (Inr response, this1) \<Rightarrow>
                         let tokens = map (\<lambda>record. property record columnName) (data response)
                         in Some (Inr (zipRows rowNumbers tokens), this1))))"

definition handleDetokenize ::
  "'w sdk \<Rightarrow> (js \<times> js) list \<Rightarrow> requestConfig \<Rightarrow> 'w SkyflowClient
     \<Rightarrow> ((error + (js \<times> js) list) \<times> 'w SkyflowClient) option" where
  "handleDetokenize vault rows rc this =
     (let rowNumbers = map fst rows;
          tokens = map snd rows
      in (case detokenize vault (rc_clusterId rc) (rc_vaultId rc) tokens [] None this of
            None \<Rightarrow> None
          | Some (Inl e, this1) \<Rightarrow> Some (Inl e, this1)
          | Some (Inr response, this1) \<Rightarrow>
              let values = map (\<lambda>record. property record ''value'') (data response)
              in Some (Inr (zipRows rowNumbers values), this1)))"

section \<open>The dispatcher as the specification words it\<close>

text \<open>
  The consecutive chunks of at most \<open>B\<close> items, the last one possibly shorter.
\<close>

function chunks :: "nat \<Rightarrow> 'a list \<Rightarrow> 'a list list" where
  "chunks B xs = (if B = 0 \<or> xs = [] then [] else take B xs # chunks B (drop B xs))"
  by pat_completeness auto
termination
  by (relation "measure (\<lambda>(B, xs). length xs)") auto

declare chunks.simps [simp del]

text \<open>\<open>ceil(n / b)\<close> on natural numbers.\<close>

definition ceil_div :: "nat \<Rightarrow> nat \<Rightarrow> nat" where
  "ceil_div n b = (n + b - 1) div b"

text \<open>
  One call of \<open>invoke\<close> per chunk, in the order of the list, each on the state the
  previous call left; the first rejected call ends the run with its error.
\<close>

fun invokeEach ::
  "('a list \<Rightarrow> 's \<Rightarrow> (error + 'r) \<times> 's) \<Rightarrow> 'a list list \<Rightarrow> 's \<Rightarrow> (error + 'r list) \<times> 's" where
  "invokeEach invoke [] s = (Inr [], s)"
| "invokeEach invoke (c # cs) s =
     (case invoke c s of
        (Inl e, s1) \<Rightarrow> (Inl e, s1)
      | (Inr r, s1) \<Rightarrow>
          (case invokeEach invoke cs s1 of
             (Inl e, s2) \<Rightarrow> (Inl e, s2)
           | (Inr rs, s2) \<Rightarrow> (Inr (r # rs), s2)))"

text \<open>The row-level errors of a batch result, \<open>null\<close> read as none.\<close>

definition errorsOf :: "('r, 'e) batch_result \<Rightarrow> 'e list" where
  "errorsOf r = (case errors r of None \<Rightarrow> [] | Some es \<Rightarrow> es)"

text \<open>
  The chunk results put together: \<open>data\<close> and \<open>errors\<close> concatenated in chunk order
  (\<open>errors\<close> is \<open>null\<close> when there is none).
\<close>

definition concatResults :: "('r, 'e) batch_result list \<Rightarrow> ('r, 'e) batch_result" where
  "concatResults outs =
     \<lparr>data = concat (map data outs),
      errors = (if concat (map errorsOf outs) = [] then None
                else Some (concat (map errorsOf outs)))\<rparr>"

text \<open>
  Section 4.2: invoke once and return the result unchanged when the input fits one
  batch; otherwise invoke once per chunk in input order and concatenate, a rejected
  chunk failing the whole dispatch.
\<close>

definition dispatch_spec ::
  "nat \<Rightarrow> ('a list \<Rightarrow> 's \<Rightarrow> (error + ('r, 'e) batch_result) \<times> 's) \<Rightarrow> 'a list \<Rightarrow> 's
     \<Rightarrow> (error + ('r, 'e) batch_result) \<times> 's" where
  "dispatch_spec B invoke items s =
     (if length items \<le> B then invoke items s
      else (case invokeEach invoke (chunks B items) s of
              (Inl e, s') \<Rightarrow> (Inl e, s')
            | (Inr outs, s') \<Rightarrow> (Inr (concatResults outs), s')))"

section \<open>A stub vault\<close>

text \<open>
  A vault for concrete runs. Its state counts the calls it has answered; it rejects
  the call numbered \<open>failAt\<close> (none when \<open>failAt\<close> is \<open>None\<close>). An insert returns
  the records it was given, a detokenize returns each token with a value derived from
  it and reports a row-level error for each \<open>null\<close> token, a query returns one
  fixed row.
\<close>

definition stubVault :: "nat option \<Rightarrow> nat sdk" where
  "stubVault failAt =
     \<lparr>sdk_insert = (\<lambda>client vaultId table records options w.
         if failAt = Some w then (Inl ''unavailable'', Suc w)
         else (Inr \<lparr>insertedFields = Some (map own_props records), insert_errors = None\<rparr>, Suc w)),
      sdk_detokenize = (\<lambda>client vaultId tokens continue w.
         if failAt = Some w then (Inl ''unavailable'', Suc w)
         else (Inr \<lparr>detokenizedFields =
                      Some (map (\<lambda>d. [(''token'', dd_token d),
                                       (''value'', JStr (''plain-'' @ toString (dd_token d)))])
                              (filter (\<lambda>d. dd_token d \<noteq> JNull) tokens)),
                    detokenize_errors =
                      (if \<forall>d \<in> set tokens. dd_token d \<noteq> JNull then None
                       else Some (map (\<lambda>d. JStr ''token not found'')
                                    (filter (\<lambda>d. dd_token d = JNull) tokens)))\<rparr>, Suc w)),
      sdk_query = (\<lambda>client vaultId sqlQuery w.
         if failAt = Some w then (Inl ''unavailable'', Suc w)
         else (Inr \<lparr>query_fields =
                      Some [[(''name'', JStr ''tok-1''), (''tokenizedData'', JNull),
                             (''skyflow_id'', JStr ''id-1'')]],
                    query_errors = None\<rparr>, Suc w))\<rparr>"

text \<open>The client object as the constructor leaves it, with the given batching.\<close>

definition newClient :: "batching \<Rightarrow> nat SkyflowClient" where
  "newClient b =
     \<lparr>this_credentials = \<lparr>apiKey = Some ''sky-key'', serialized = ''{}''\<rparr>,
      this_batching = b,
      this_clients = Map.empty,
      constructed = [],
      calls = [],
      world = 0\<rparr>"

text \<open>A batching configuration with batch size 2 for both operations.\<close>

definition batching2 :: batching where
  "batching2 = \<lparr>tokenize_batchSize = CNum 2, detokenize_batchSize = CNum 2\<rparr>"

section \<open>Runs of the client cache\<close>

text \<open>
  A sequence of resolutions on one client object, each given as
  \<open>(clusterId, vaultId, env)\<close>, whatever their outcome.
\<close>

fun resolveAll :: "(string \<times> string \<times> string option) list \<Rightarrow> 'w SkyflowClient \<Rightarrow> 'w SkyflowClient" where
  "resolveAll [] this = this"
| "resolveAll ((clusterId, vaultId, envArg) # rest) this =
     resolveAll rest (snd (getClient clusterId vaultId envArg this))"

text \<open>The triple a handle was constructed for.\<close>

definition triple :: "vault_config \<Rightarrow> string \<times> string \<times> string" where
  "triple c = (vc_clusterId c, vc_vaultId c, vc_env c)"

text \<open>Every constructed handle is cached under its key, and no triple was constructed twice.\<close>

definition cache_inv :: "'w SkyflowClient \<Rightarrow> bool" where
  "cache_inv this \<longleftrightarrow>
     (\<forall>c \<in> set (constructed this).
        this_clients this (vc_clusterId c @ '':'' @ vc_vaultId c @ '':'' @ vc_env c) \<noteq> None)
     \<and> distinct (map triple (constructed this))"

text \<open>Three rows with row numbers that are neither contiguous nor in order.\<close>

definition sampleRows :: "(js \<times> js) list" where
  "sampleRows = [(JNum 7, JStr ''t1''), (JNum 3, JStr ''t2''), (JNum 100, JStr ''t3'')]"

definition sampleConfig :: requestConfig where
  "sampleConfig = \<lparr>rc_clusterId = ''c'', rc_vaultId = ''v'', rc_table = Some ''users'',
                    rc_columnName = Some ''email''\<rparr>"

text \<open>The state \<open>s'\<close> has the log of \<open>s\<close> followed by entries that all satisfy \<open>P\<close>.\<close>

definition extends_log :: "('s \<Rightarrow> 'c list) \<Rightarrow> ('c \<Rightarrow> bool) \<Rightarrow> 's \<Rightarrow> 's \<Rightarrow> bool" where
  "extends_log lg P s s' \<longleftrightarrow> (\<exists>new. lg s' = lg s @ new \<and> (\<forall>c \<in> set new. P c))"

text \<open>No batch size configured.\<close>

definition batchingAbsent :: batching where
  "batchingAbsent = \<lparr>tokenize_batchSize = Absent, detokenize_batchSize = Absent\<rparr>"

section \<open>The handler modules and their client objects (lambda/handler.js, lambda/snowflake-handler.js)\<close>

text \<open>\<open>String.prototype.includes\<close>.\<close>

fun String_includes :: "string \<Rightarrow> string \<Rightarrow> bool" where
  "String_includes [] sub = (sub = [])"
| "String_includes (c # cs) sub = (take (length sub) (c # cs) = sub \<or> String_includes cs sub)"

text \<open>
  Each of the two handler modules has a variable \<open>skyflowClient\<close> of its own,
  \<open>undefined\<close> when the module is loaded and set by
  \<open>if (!skyflowClient) skyflowClient = new SkyflowClient(config)\<close> in the first request
  the module serves. A process holds both.
\<close>

record 'w process =
  handler_skyflowClient :: "'w SkyflowClient option"
  snowflake_skyflowClient :: "'w SkyflowClient option"

definition startProcess :: "'w process" where
  "startProcess = \<lparr>handler_skyflowClient = None, snowflake_skyflowClient = None\<rparr>"

text \<open>
  The client object of a module after that statement; \<open>fresh\<close> is the object that
  \<open>new SkyflowClient(config)\<close> gives.
\<close>

definition orNew :: "'w SkyflowClient \<Rightarrow> 'w SkyflowClient option \<Rightarrow> 'w SkyflowClient" where
  "orNew fresh v = (case v of None \<Rightarrow> fresh | Some client \<Rightarrow> client)"

text \<open>
  The handles of a process: a handle is an object made by \<open>new Skyflow(...)\<close> in one
  of the two client objects, named here by the module that owns the client object
  and the position of the construction there.
\<close>

datatype handler_module = HandlerModule | SnowflakeModule

text \<open>
  A request with the given path whose operation resolves the handle of a triple.
  The handler of \<open>handler.js\<close> passes a path that includes \<open>/processSnowflake\<close> on to
  the handler of \<open>snowflake-handler.js\<close>, whose operations run on that module's
  \<open>skyflowClient\<close>; every other path is served on the \<open>skyflowClient\<close> of
  \<open>handler.js\<close>.
\<close>

definition resolveRequest ::
  "'w SkyflowClient \<Rightarrow> string \<Rightarrow> string \<Rightarrow> string \<Rightarrow> string option \<Rightarrow> 'w process
     \<Rightarrow> (error + handler_module \<times> nat) \<times> 'w process" where
  "resolveRequest fresh path clusterId vaultId envArg p =
     (if String_includes path ''/processSnowflake'' then
        (case getClient clusterId vaultId envArg (orNew fresh (snowflake_skyflowClient p)) of
           (Inl e, client) \<Rightarrow> (Inl e, p\<lparr>snowflake_skyflowClient := Some client\<rparr>)
         | (Inr h, client) \<Rightarrow>
             (Inr (SnowflakeModule, h), p\<lparr>snowflake_skyflowClient := Some client\<rparr>))
      else
        (case getClient clusterId vaultId envArg (orNew fresh (handler_skyflowClient p)) of
           (Inl e, client) \<Rightarrow> (Inl e, p\<lparr>handler_skyflowClient := Some client\<rparr>)
         | (Inr h, client) \<Rightarrow>
             (Inr (HandlerModule, h), p\<lparr>handler_skyflowClient := Some client\<rparr>)))"

text \<open>
  A sequence of such requests, each given as \<open>(path, clusterId, vaultId, env)\<close>,
  whatever their outcome.
\<close>

fun serveAll ::
  "'w SkyflowClient \<Rightarrow> (string \<times> string \<times> string \<times> string option) list \<Rightarrow> 'w process
     \<Rightarrow> 'w process" where
  "serveAll fresh [] p = p"
| "serveAll fresh ((path, clusterId, vaultId, envArg) # rest) p =
     serveAll fresh rest (snd (resolveRequest fresh path clusterId vaultId envArg p))"

text \<open>The client object that serves a path, when the module has made it.\<close>

definition clientFor :: "string \<Rightarrow> 'w process \<Rightarrow> 'w SkyflowClient option" where
  "clientFor path p =
     (if String_includes path ''/processSnowflake'' then snowflake_skyflowClient p
      else handler_skyflowClient p)"

text \<open>
  The constructions of handles that the client object of a module has made (none
  before the module has a client object), and those of the whole process.
\<close>

definition constructedBy :: "handler_module \<Rightarrow> 'w process \<Rightarrow> vault_config list" where
  "constructedBy m p =
     (case (case m of HandlerModule \<Rightarrow> handler_skyflowClient p
                    | SnowflakeModule \<Rightarrow> snowflake_skyflowClient p) of
        None \<Rightarrow> []
      | Some client \<Rightarrow> constructed client)"

definition constructions :: "'w process \<Rightarrow> vault_config list" where
  "constructions p = constructedBy HandlerModule p @ constructedBy SnowflakeModule p"

text \<open>The client objects that the process has made satisfy the invariant of the cache.\<close>

definition process_inv :: "'w process \<Rightarrow> bool" where
  "process_inv p \<longleftrightarrow>
     (\<forall>client. handler_skyflowClient p = Some client \<or> snowflake_skyflowClient p = Some client
        \<longrightarrow> cache_inv client)"

section \<open>Lemmas\<close>

lemma slice_chunk:
  assumes "0 < B" "0 \<le> i"
  shows "slice xs i (i + B) = take (nat B) (drop (nat i) xs)"
proof (cases "i + B \<le> int (length xs)")
  case True
  then have "nat (i + B - i) = nat B" by simp
  with True assms show ?thesis by (simp add: slice_def)
next
  case False
  then have "length (drop (nat i) xs) \<le> nat B" using assms by auto
  then have r: "take (nat B) (drop (nat i) xs) = drop (nat i) xs" by simp
  show ?thesis
  proof (cases "i < int (length xs)")
    case True
    then have "nat (int (length xs) - i) = length (drop (nat i) xs)" using assms by auto
    with True False assms r show ?thesis by (simp add: slice_def)
  next
    case False
    with assms show ?thesis by (simp add: slice_def)
  qed
qed

lemma chunks_Cons: "0 < B \<Longrightarrow> xs \<noteq> [] \<Longrightarrow> chunks B xs = take B xs # chunks B (drop B xs)"
  by (subst chunks.simps) simp

lemma chunks_Nil [simp]: "chunks B [] = []"
  by (subst chunks.simps) simp

lemma splitBatches_chunks:
  assumes "0 < B" "0 \<le> i"
  shows "splitBatches B xs i acc = Some (acc @ chunks (nat B) (drop (nat i) xs))"
  using assms(2)
proof (induction "length xs - nat i" arbitrary: i acc rule: less_induct)
  case less
  show ?case
  proof (cases "i < int (length xs)")
    case False
    then have "drop (nat i) xs = []" using less.prems by simp
    with False show ?thesis by (subst splitBatches.simps) simp
  next
    case True
    have ne: "drop (nat i) xs \<noteq> []" using True less.prems by simp
    have m: "length xs - nat (i + B) < length xs - nat i"
      using True less.prems assms(1) by linarith
    have step: "splitBatches B xs (i + B) (acc @ [slice xs i (i + B)])
        = Some ((acc @ [slice xs i (i + B)]) @ chunks (nat B) (drop (nat (i + B)) xs))"
      using less.hyps [OF m] less.prems assms(1) by simp
    have d: "drop (nat (i + B)) xs = drop (nat B) (drop (nat i) xs)"
      using less.prems assms(1) by (simp add: nat_add_distrib add.commute)
    show ?thesis
      using True step assms(1) less.prems ne
      by (subst splitBatches.simps)
         (simp add: slice_chunk d chunks_Cons [of "nat B" "drop (nat i) xs"])
  qed
qed

lemma processBatches_invokeEach:
  "processBatches invoke bs res errs s =
     (case invokeEach invoke bs s of
        (Inl e, s') \<Rightarrow> (Inl e, s')
      | (Inr outs, s') \<Rightarrow>
          (Inr (res @ concat (map data outs), errs @ concat (map errorsOf outs)), s'))"
  by (induction bs arbitrary: res errs s)
     (auto simp: errorsOf_def split: prod.splits sum.splits option.splits)

lemma dispatch_eq_spec:
  assumes "0 < B"
  shows "dispatch B invoke items s = Some (dispatch_spec (nat B) invoke items s)"
proof (cases "int (length items) \<le> B")
  case True
  then have "length items \<le> nat B" by simp
  with True show ?thesis by (simp add: dispatch_def dispatch_spec_def)
next
  case False
  then have gt: "\<not> length items \<le> nat B" using assms by simp
  have split: "splitBatches B items 0 [] = Some (chunks (nat B) items)"
    using splitBatches_chunks [OF assms, of 0 items "[]"] by simp
  show ?thesis
    using False gt
    by (simp add: dispatch_def dispatch_spec_def split processBatches_invokeEach concatResults_def
             split: prod.splits sum.splits)
qed

text \<open>\<open>ceil_div n b\<close> is the least \<open>k\<close> with \<open>n \<le> k * b\<close>, the ceiling of \<open>n / b\<close>.\<close>

lemma ceil_div_least:
  assumes "0 < b"
  shows "n \<le> ceil_div n b * b \<and> (\<forall>k. n \<le> k * b \<longrightarrow> ceil_div n b \<le> k)"
proof
  have "n + b - 1 < ((n + b - 1) div b) * b + b"
    using assms by (metis add.commute dividend_less_times_div mult.commute)
  then show "n \<le> ceil_div n b * b" using assms by (simp add: ceil_div_def) 
  show "\<forall>k. n \<le> k * b \<longrightarrow> ceil_div n b \<le> k"
  proof (intro allI impI)
    fix k assume "n \<le> k * b"
    then have "n + b - 1 < (k + 1) * b" using assms by simp
    then have "(n + b - 1) div b < k + 1"
      using assms by (simp add: less_mult_imp_div_less)
    then show "ceil_div n b \<le> k" by (simp add: ceil_div_def)
  qed
qed

lemma length_chunks: "0 < B \<Longrightarrow> length (chunks B xs) = ceil_div (length xs) B"
proof (induction B xs rule: chunks.induct)
  case (1 B xs)
  show ?case
  proof (cases "xs = []")
    case True
    then show ?thesis using 1 by (simp add: ceil_div_def)
  next
    case False
    then have IH: "length (chunks B (drop B xs)) = ceil_div (length xs - B) B"
      using 1 by simp
    show ?thesis
    proof (cases "length xs \<le> B")
      case True
      obtain n where n: "length xs = Suc n" using False by (cases xs) auto
      have lo: "B * 1 \<le> length xs + B - 1" unfolding n by simp
      have hi: "length xs + B - 1 < B * Suc 1" using True unfolding n by simp
      have "(length xs + B - 1) div B = 1"
        using lo hi by (rule div_nat_eqI)
      moreover have "(length xs - B + B - 1) div B = 0" using True 1(2) by simp
      ultimately show ?thesis using False 1(2) IH by (simp add: chunks_Cons ceil_div_def)
    next
      case False': False
      then have "length xs + B - 1 = (length xs - B + B - 1) + B" by simp
      then have "(length xs + B - 1) div B = (length xs - B + B - 1) div B + 1"
        using 1(2) by (metis div_add_self2 less_numeral_extra(3))
      then show ?thesis using False 1(2) IH by (simp add: chunks_Cons ceil_div_def)
    qed
  qed
qed

lemma concat_chunks: "0 < B \<Longrightarrow> concat (chunks B xs) = xs"
proof (induction B xs rule: chunks.induct)
  case (1 B xs)
  then show ?case by (cases "xs = []") (simp_all add: chunks_Cons)
qed

lemma chunks_sizes: "0 < B \<Longrightarrow> c \<in> set (chunks B xs) \<Longrightarrow> 0 < length c \<and> length c \<le> B"
proof (induction B xs rule: chunks.induct)
  case (1 B xs)
  then show ?case by (cases "xs = []") (auto simp: chunks_Cons)
qed

lemma chunks_nth:
  "0 < B \<Longrightarrow> k < length (chunks B xs) \<Longrightarrow> chunks B xs ! k = take B (drop (k * B) xs)"
proof (induction B xs arbitrary: k rule: chunks.induct)
  case (1 B xs)
  show ?case
  proof (cases "xs = []")
    case True
    then show ?thesis using 1 by simp
  next
    case False
    show ?thesis
    proof (cases k)
      case 0
      then show ?thesis using False 1(2) by (simp add: chunks_Cons)
    next
      case (Suc j)
      then have "j < length (chunks B (drop B xs))" using 1(2,3) False by (simp add: chunks_Cons)
      then have "chunks B (drop B xs) ! j = take B (drop (j * B) (drop B xs))"
        using 1 False by simp
      then show ?thesis using Suc False 1(2) by (simp add: chunks_Cons add.commute)
    qed
  qed
qed

lemma concat_nth_chunked:
  "0 < B \<Longrightarrow> list_all2 (\<lambda>r c. length r = length c) rs (chunks B xs) \<Longrightarrow> i < length xs
     \<Longrightarrow> concat rs ! i = rs ! (i div B) ! (i mod B)"
proof (induction B xs arbitrary: rs i rule: chunks.induct)
  case (1 B xs)
  have ne: "xs \<noteq> []" using 1(4) by auto
  have pos: "0 < B" using 1(2) .
  have ch: "chunks B xs = take B xs # chunks B (drop B xs)"
    using pos ne by (rule chunks_Cons)
  obtain r rs' where rs: "rs = r # rs'" and r: "length r = length (take B xs)"
     and rest: "list_all2 (\<lambda>r c. length r = length c) rs' (chunks B (drop B xs))"
    using 1(3) unfolding ch by (auto simp: list_all2_Cons2)
  show ?case
  proof (cases "i < B")
    case True
    then have "i < length r" using r 1(4) by simp
    then show ?thesis using True rs by (simp add: nth_append)
  next
    case False
    then have len: "length r = B" using r 1(4) by simp
    have i': "i - B < length (drop B xs)" using False 1(4) by simp
    have IH: "concat rs' ! (i - B) = rs' ! ((i - B) div B) ! ((i - B) mod B)"
      using 1(1) [OF _ pos rest i'] pos ne by simp
    have dv: "i div B = Suc ((i - B) div B)"
      using False pos by (simp add: le_div_geq)
    have md: "i mod B = (i - B) mod B"
      using False by (simp add: le_mod_geq)
    show ?thesis using False len IH rs dv md by (simp add: nth_append)
  qed
qed

lemma div_less_ceil_div:
  assumes "0 < b" "i < n"
  shows "i div b < ceil_div n b"
proof -
  have le: "i div b \<le> (n - 1) div b" using assms(2) by (intro div_le_mono) arith
  have e: "n + b - 1 = (n - 1) + b" using assms(2) by arith
  have "(n - 1 + b) div b = (n - 1) div b + 1" using assms(1) div_add_self2 [of b "n - 1"] by simp
  then have "ceil_div n b = (n - 1) div b + 1" unfolding ceil_div_def e .
  with le show ?thesis by arith
qed

lemma tokenize_dispatch:
  "tokenize vault cl va tb records options envArg this =
     dispatch (or25 (tokenize_batchSize (this_batching this)))
       (tokenizeBatch vault cl va tb options (envOrDefault envArg)) records this"
  by (simp add: tokenize_def Let_def)

lemma tokenizeByot_dispatch:
  "tokenizeByot vault cl va tb records envArg this =
     dispatch (or25 (tokenize_batchSize (this_batching this)))
       (tokenizeByotBatch vault cl va tb (envOrDefault envArg)) records this"
  by (simp add: tokenizeByot_def Let_def)

lemma detokenize_dispatch:
  "detokenize vault cl va tokens options envArg this =
     dispatch (or25 (detokenize_batchSize (this_batching this)))
       (detokenizeBatch vault cl va options (envOrDefault envArg)) tokens this"
  by (simp add: detokenize_def Let_def)

lemma chunk_nth_facts:
  assumes "0 < B" "k < length (chunks B items)"
  shows "chunks B items ! k = take B (drop (k * B) items)
           \<and> 0 < length (chunks B items ! k) \<and> length (chunks B items ! k) \<le> B"
proof -
  have "chunks B items ! k \<in> set (chunks B items)" using assms(2) by (rule nth_mem)
  from chunks_sizes [OF assms(1) this] chunks_nth [OF assms] show ?thesis by simp
qed

lemma concat_results_nth:
  assumes "0 < B"
    and a: "list_all2 (\<lambda>r c. length (data r) = length c) outs (chunks B items)"
    and i: "i < length items"
  shows "data (concatResults outs) ! i = data (outs ! (i div B)) ! (i mod B)"
proof -
  have l: "list_all2 (\<lambda>r c. length r = length c) (map data outs) (chunks B items)"
    using a by (simp add: list_all2_map1)
  have c: "concat (map data outs) ! i = map data outs ! (i div B) ! (i mod B)"
    by (rule concat_nth_chunked [OF assms(1) l i])
  have "length outs = ceil_div (length items) B"
    using a length_chunks [OF assms(1), of items] by (simp add: list_all2_lengthD)
  then have "i div B < length outs" using div_less_ceil_div [OF assms(1) i] by simp
  then show ?thesis using c by (simp add: concatResults_def)
qed

lemma invokeEach_append:
  "invokeEach invoke (pre @ rest) s =
     (case invokeEach invoke pre s of
        (Inl e, s1) \<Rightarrow> (Inl e, s1)
      | (Inr outs, s1) \<Rightarrow>
          (case invokeEach invoke rest s1 of
             (Inl e, s2) \<Rightarrow> (Inl e, s2)
           | (Inr outs', s2) \<Rightarrow> (Inr (outs @ outs'), s2)))"
  by (induction pre arbitrary: s) (auto split: prod.splits sum.splits)

lemma dispatch_multi:
  assumes "0 < B" "B < length items"
  shows "dispatch (int B) invoke items s =
     Some (case invokeEach invoke (chunks B items) s of
             (Inl e, s') \<Rightarrow> (Inl e, s')
           | (Inr outs, s') \<Rightarrow> (Inr (concatResults outs), s'))"
proof -
  have "0 < int B" using assms(1) by simp
  from dispatch_eq_spec [OF this, of invoke items s] assms(2) show ?thesis
    by (simp add: dispatch_spec_def)
qed

text \<open>
  The header lookup depends on the name only through its lower-casing, gives \<open>null\<close>
  when the headers are no object or no key matches, and gives the value of a
  matching key when one exists and the name is not empty.
\<close>

lemma toLowerCase_Nil [simp]: "toLowerCase k = [] \<longleftrightarrow> k = []"
  by (simp add: toLowerCase_def)

lemma toLowerCase_examples:
  "toLowerCase ''X-Skyflow-Vault-ID'' = ''x-skyflow-vault-id''"
  "toLowerCase [CHR 0xC0, CHR 0xC9, CHR 0xDE] = [CHR 0xE0, CHR 0xE9, CHR 0xFE]"
  "toLowerCase [CHR 0xD7, CHR 0xDF, CHR 0xF7, CHR 0xFF, CHR 0xB5] = [CHR 0xD7, CHR 0xDF, CHR 0xF7, CHR 0xFF, CHR 0xB5]"
  by code_simp+

lemma getHeader_case_insensitive:
  "toLowerCase name1 = toLowerCase name2 \<Longrightarrow> getHeader headers name1 = getHeader headers name2"
  by (simp add: getHeader_def)

lemma getHeader_no_match:
  "\<not> truthy headers \<or> \<not> typeof_object headers
     \<or> (\<forall>k \<in> set (Object_keys headers). toLowerCase k \<noteq> toLowerCase name)
   \<Longrightarrow> getHeader headers name = JNull"
proof -
  have "\<forall>k \<in> set (Object_keys headers). toLowerCase k \<noteq> toLowerCase name
        \<Longrightarrow> find (\<lambda>k. toLowerCase k = toLowerCase name) (Object_keys headers) = None"
    by (simp add: find_None_iff)
  then show "\<not> truthy headers \<or> \<not> typeof_object headers
     \<or> (\<forall>k \<in> set (Object_keys headers). toLowerCase k \<noteq> toLowerCase name)
   \<Longrightarrow> getHeader headers name = JNull"
    by (auto simp: getHeader_def Let_def)
qed

lemma getHeader_match:
  assumes "truthy headers" "typeof_object headers" "name \<noteq> []"
    and "k \<in> set (Object_keys headers)" "toLowerCase k = toLowerCase name"
  shows "\<exists>key \<in> set (Object_keys headers).
           toLowerCase key = toLowerCase name \<and> getHeader headers name = property (own_props headers) key"
proof -
  obtain key where f: "find (\<lambda>k. toLowerCase k = toLowerCase name) (Object_keys headers) = Some key"
    using assms(4,5) by (cases "find (\<lambda>k. toLowerCase k = toLowerCase name) (Object_keys headers)")
      (auto simp: find_None_iff)
  then have k: "key \<in> set (Object_keys headers)" "toLowerCase key = toLowerCase name"
    by (auto simp: find_Some_iff)
  then have "key \<noteq> []" using assms(3) by (metis toLowerCase_Nil)
  then show ?thesis using assms(1,2) f k by (auto simp: getHeader_def Let_def)
qed

lemma getClient_cases:
  "getClient cl va envArg this = (r, this1) \<Longrightarrow>
     (r = Inl (InvalidEnvironment (envOrDefault envArg)) \<and> this1 = this
        \<and> envOrDefault envArg \<notin> {''SANDBOX'', ''PROD''})
     \<or> (\<exists>h. r = Inr h \<and> envOrDefault envArg \<in> {''SANDBOX'', ''PROD''}
            \<and> calls this1 = calls this \<and> world this1 = world this
            \<and> this_batching this1 = this_batching this
            \<and> this_clients this1 (cl @ '':'' @ va @ '':'' @ envOrDefault envArg) = Some h)"
  by (auto simp: getClient_def envOrDefault_def Let_def split: option.splits if_splits)

lemma getClient_keeps_entries:
  "this_clients this k = Some h \<Longrightarrow> this_clients (snd (getClient cl va envArg this)) k = Some h"
  by (auto simp: getClient_def Let_def split: option.splits)

lemma resolveAll_keeps_entries:
  "this_clients this k = Some h \<Longrightarrow> this_clients (resolveAll rs this) k = Some h"
  by (induction rs arbitrary: this) (auto simp: getClient_keeps_entries)

lemma getClient_hit:
  assumes "envOrDefault envArg \<in> {''SANDBOX'', ''PROD''}"
    and "this_clients this (cl @ '':'' @ va @ '':'' @ envOrDefault envArg) = Some h"
  shows "getClient cl va envArg this = (Inr h, this)"
  using assms by (auto simp: getClient_def envOrDefault_def Let_def split: option.splits)

lemma getClient_inv: "cache_inv this \<Longrightarrow> cache_inv (snd (getClient cl va envArg this))"
  unfolding cache_inv_def getClient_def Let_def
  by (auto simp: triple_def split: option.splits)

lemma resolveAll_inv: "cache_inv this \<Longrightarrow> cache_inv (resolveAll rs this)"
  by (induction rs arbitrary: this) (auto simp: getClient_inv)

lemma length_zipRows [simp]: "length (zipRows rowNumbers results) = length rowNumbers"
  by (simp add: zipRows_def)

lemma zipRows_nth:
  "i < length rowNumbers \<Longrightarrow> zipRows rowNumbers results ! i = (rowNumbers ! i, at_index results i)"
  by (simp add: zipRows_def)

lemma zipRows_fst: "map fst (zipRows rowNumbers results) = rowNumbers"
  by (rule nth_equalityI) (simp_all add: zipRows_nth)

lemma zipRows_snd:
  assumes "length results = length rowNumbers"
  shows "map snd (zipRows rowNumbers results) = results"
  using assms by (intro nth_equalityI) (simp_all add: zipRows_nth at_index_def)

lemma extends_log_refl: "extends_log lg P s s"
  by (simp add: extends_log_def)

lemma extends_log_trans:
  "extends_log lg P s s1 \<Longrightarrow> extends_log lg P s1 s2 \<Longrightarrow> extends_log lg P s s2"
  unfolding extends_log_def by (metis append.assoc set_append UnE)

lemma processBatches_log:
  assumes "\<And>b s r s'. invoke b s = (r, s') \<Longrightarrow> extends_log lg P s s'"
  shows "processBatches invoke bs res errs s = (r, s') \<Longrightarrow> extends_log lg P s s'"
proof (induction bs arbitrary: res errs s)
  case Nil
  then show ?case by (simp add: extends_log_refl)
next
  case (Cons b bs)
  obtain r1 s1 where i: "invoke b s = (r1, s1)" by (cases "invoke b s")
  have e1: "extends_log lg P s s1" using assms i by blast
  show ?case
  proof (cases r1)
    case (Inl e)
    then show ?thesis using Cons.prems i e1 by simp
  next
    case (Inr x)
    then have "extends_log lg P s1 s'" using Cons.prems i Cons.IH by simp
    with e1 show ?thesis by (rule extends_log_trans)
  qed
qed

lemma dispatch_log:
  assumes "\<And>b s r s'. invoke b s = (r, s') \<Longrightarrow> extends_log lg P s s'"
    and "dispatch B invoke items s = Some (r, s')"
  shows "extends_log lg P s s'"
proof (cases "int (length items) \<le> B")
  case True
  then show ?thesis using assms by (simp add: dispatch_def)
next
  case False
  then obtain batches where "splitBatches B items 0 [] = Some batches"
    and p: "(case processBatches invoke batches [] [] s of
                        (Inl e, s') \<Rightarrow> (Inl e, s')
                      | (Inr (results, errs), s') \<Rightarrow>
                          (Inr \<lparr>data = results,
                                errors = (if length errs > 0 then Some errs else None)\<rparr>, s'))
            = (r, s')"
    using assms(2) by (auto simp: dispatch_def split: option.splits)
  obtain r0 where run: "processBatches invoke batches [] [] s = (r0, s')"
    using p by (cases "processBatches invoke batches [] [] s") (auto split: sum.splits)
  show ?thesis
  proof (rule processBatches_log [where invoke = invoke and lg = lg and P = P])
    show "\<And>b s r s'. invoke b s = (r, s') \<Longrightarrow> extends_log lg P s s'" by (rule assms(1))
    show "processBatches invoke batches [] [] s = (r0, s')" by (rule run)
  qed
qed

lemma invokeEach_count:
  assumes "\<And>b s r s'. invoke b s = (Inr r, s') \<Longrightarrow> length (lg s') = Suc (length (lg s))"
  shows "invokeEach invoke bs s = (Inr outs, s') \<Longrightarrow> length (lg s') = length (lg s) + length bs"
proof (induction bs arbitrary: s outs)
  case Nil
  then show ?case by simp
next
  case (Cons b bs)
  obtain r1 s1 where i: "invoke b s = (r1, s1)" by (cases "invoke b s")
  show ?case
  proof (cases r1)
    case (Inl e)
    then show ?thesis using Cons.prems i by simp
  next
    case (Inr x)
    then obtain rs where "invokeEach invoke bs s1 = (Inr rs, s')"
      using Cons.prems i by (auto split: prod.splits sum.splits)
    then have "length (lg s') = length (lg s1) + length bs" by (rule Cons.IH)
    moreover have "length (lg s1) = Suc (length (lg s))" using assms i Inr by simp
    ultimately show ?thesis by simp
  qed
qed

lemma dispatch_spec_count:
  assumes "\<And>b s r s'. invoke b s = (Inr r, s') \<Longrightarrow> length (lg s') = Suc (length (lg s))"
    and "0 < B"
    and "dispatch_spec B invoke items s = (Inr res, s')"
  shows "length (lg s') = length (lg s) + max 1 (ceil_div (length items) B)"
proof (cases "length items \<le> B")
  case True
  have "ceil_div (length items) B \<le> 1"
  proof (cases "items = []")
    case True
    then show ?thesis using assms(2) by (simp add: ceil_div_def)
  next
    case False
    have "ceil_div (length items) B = length (chunks B items)"
      using assms(2) by (simp add: length_chunks)
    also have "\<dots> = 1" using True False assms(2) by (simp add: chunks_Cons)
    finally show ?thesis by simp
  qed
  then have "max 1 (ceil_div (length items) B) = 1" by simp
  moreover have "invoke items s = (Inr res, s')" using True assms(3) by (simp add: dispatch_spec_def)
  ultimately show ?thesis using assms(1) by simp
next
  case False
  then obtain outs where run: "invokeEach invoke (chunks B items) s = (Inr outs, s')"
    using assms(3) by (auto simp: dispatch_spec_def split: prod.splits sum.splits)
  have "length (lg s') = length (lg s) + length (chunks B items)"
  proof (rule invokeEach_count [where invoke = invoke and lg = lg])
    show "\<And>b s r s'. invoke b s = (Inr r, s') \<Longrightarrow> length (lg s') = Suc (length (lg s))"
      by (rule assms(1))
    show "invokeEach invoke (chunks B items) s = (Inr outs, s')" by (rule run)
  qed
  moreover have "length (chunks B items) = ceil_div (length items) B"
    using assms(2) by (rule length_chunks)
  moreover have "items \<noteq> []" using False by auto
  then have "1 \<le> length (chunks B items)" using assms(2) by (simp add: chunks_Cons)
  ultimately show ?thesis by simp
qed

lemma detokenizeBatch_log:
  assumes "detokenizeBatch vault cl va options env tokens this = (r, this1)"
  shows "extends_log calls
           (\<lambda>c. \<exists>h chunk. c = DetokenizeCall h va
                               (detokenizeData (property options ''redactionType'') chunk) True)
           this this1"
proof -
  obtain g this0 where g: "getClient cl va (Some env) this = (g, this0)"
    by (cases "getClient cl va (Some env) this")
  show ?thesis
  proof (cases g)
    case (Inl e)
    then have "this1 = this" using assms g getClient_cases [OF g]
      by (auto simp: detokenizeBatch_def Let_def)
    then show ?thesis by (simp add: extends_log_refl)
  next
    case (Inr client)
    then have c0: "calls this0 = calls this" using getClient_cases [OF g] by auto
    obtain a w where q: "sdk_detokenize vault client va
        (detokenizeData (property options ''redactionType'') tokens) True (world this0) = (a, w)"
      by (cases "sdk_detokenize vault client va
        (detokenizeData (property options ''redactionType'') tokens) True (world this0)")
    have "calls this1 = calls this @ [DetokenizeCall client va
              (detokenizeData (property options ''redactionType'') tokens) True]"
      using assms g Inr q c0 by (cases a) (auto simp: detokenizeBatch_def Let_def)
    then show ?thesis unfolding extends_log_def by auto
  qed
qed

lemma detokenize_log:
  assumes "detokenize vault cl va tokens options envArg this = Some (r, this1)"
  shows "extends_log calls
           (\<lambda>c. \<exists>h chunk. c = DetokenizeCall h va
                               (detokenizeData (property options ''redactionType'') chunk) True)
           this this1"
proof (rule dispatch_log [where invoke = "detokenizeBatch vault cl va options (envOrDefault envArg)"])
  show "\<And>b s r s'. detokenizeBatch vault cl va options (envOrDefault envArg) b s = (r, s') \<Longrightarrow>
      extends_log calls
           (\<lambda>c. \<exists>h chunk. c = DetokenizeCall h va
                               (detokenizeData (property options ''redactionType'') chunk) True)
           s s'"
    by (rule detokenizeBatch_log)
  show "dispatch (or25 (detokenize_batchSize (this_batching this)))
          (detokenizeBatch vault cl va options (envOrDefault envArg)) tokens this = Some (r, this1)"
    using assms by (simp add: detokenize_dispatch)
qed

lemma detokenizeData_falsy:
  "\<not> truthy redactionType \<Longrightarrow> x \<in> set (detokenizeData redactionType tokens)
     \<Longrightarrow> dd_redactionType x = None"
  by (auto simp: detokenizeData_def)

lemma detokenizeData_truthy:
  "truthy redactionType \<Longrightarrow> x \<in> set (detokenizeData redactionType tokens)
     \<Longrightarrow> dd_redactionType x \<noteq> None"
  by (auto simp: detokenizeData_def)

lemma detokenizeData_unknown:
  assumes "redactionType = JStr name" and "name \<noteq> []" and "RedactionType_property name = None"
  shows "detokenizeData redactionType tokens
           = map (\<lambda>token. \<lparr>dd_token = token, dd_redactionType = Some (Member PLAIN_TEXT)\<rparr>) tokens"
  using assms by (simp add: detokenizeData_def)

lemma detokenizeData_plain_text:
  "detokenizeData (JStr ''PLAIN_TEXT'') tokens
           = map (\<lambda>token. \<lparr>dd_token = token, dd_redactionType = Some (Member PLAIN_TEXT)\<rparr>) tokens"
  by (simp add: detokenizeData_def RedactionType_property_def)

lemma Object_prototype_name_facts:
  assumes "name \<in> set Object_prototype_names"
  shows "name \<noteq> []" and "name \<notin> {''DEFAULT'', ''PLAIN_TEXT'', ''MASKED'', ''REDACTED''}"
    and "RedactionType_property name = Some (Inherited name)"
  using assms by (auto simp: Object_prototype_names_def RedactionType_property_def)

lemma detokenizeData_inherited:
  assumes "redactionType = JStr name" and "name \<in> set Object_prototype_names"
  shows "detokenizeData redactionType tokens
           = map (\<lambda>token. \<lparr>dd_token = token, dd_redactionType = Some (Inherited name)\<rparr>) tokens"
  using assms Object_prototype_name_facts [OF assms(2)] by (simp add: detokenizeData_def)

text \<open>
  A non-empty string that is neither the name of a member of \<open>RedactionType\<close> nor the
  name of a property of \<open>Object.prototype\<close> gives \<open>PLAIN_TEXT\<close> on every per-token
  object, and the call is the call made with \<open>redactionType: 'PLAIN_TEXT'\<close>.
\<close>

lemma other_names_become_plain_text:
  assumes "property options ''redactionType'' = JStr name"
    and "name \<noteq> []"
    and "RedactionType_property name = None"
  shows "detokenizeData (property options ''redactionType'') tokens
           = map (\<lambda>token. \<lparr>dd_token = token, dd_redactionType = Some (Member PLAIN_TEXT)\<rparr>) tokens"
    and "detokenize vault cl va tokens options envArg this
           = detokenize vault cl va tokens [(''redactionType'', JStr ''PLAIN_TEXT'')] envArg this"
proof -
  have u: "detokenizeData (property options ''redactionType'') chunk
           = map (\<lambda>token. \<lparr>dd_token = token, dd_redactionType = Some (Member PLAIN_TEXT)\<rparr>) chunk"
    for chunk
    using assms by (rule detokenizeData_unknown)
  show "detokenizeData (property options ''redactionType'') tokens
           = map (\<lambda>token. \<lparr>dd_token = token, dd_redactionType = Some (Member PLAIN_TEXT)\<rparr>) tokens"
    by (rule u)
  have p: "property [(''redactionType'', JStr ''PLAIN_TEXT'')] ''redactionType'' = JStr ''PLAIN_TEXT''"
    by (simp add: property_def)
  have fe: "detokenizeData (property options ''redactionType'') = detokenizeData (JStr ''PLAIN_TEXT'')"
    by (intro ext) (simp add: u detokenizeData_plain_text)
  have "detokenizeBatch vault cl va options env
          = detokenizeBatch vault cl va [(''redactionType'', JStr ''PLAIN_TEXT'')] env" for env
    unfolding detokenizeBatch_def Let_def p fe by (rule refl)
  then show "detokenize vault cl va tokens options envArg this
           = detokenize vault cl va tokens [(''redactionType'', JStr ''PLAIN_TEXT'')] envArg this"
    by (simp add: detokenize_def)
qed

lemma tokenizeBatch_count:
  assumes "tokenizeBatch vault cl va tb options env records this = (Inr r, this1)"
  shows "length (calls this1) = Suc (length (calls this))"
proof -
  obtain g this0 where g: "getClient cl va (Some env) this = (g, this0)"
    by (cases "getClient cl va (Some env) this")
  from getClient_cases [OF g] assms g show ?thesis
    by (auto simp: tokenizeBatch_def Let_def split: prod.splits sum.splits)
qed

lemma tokenizeByotBatch_count:
  assumes "tokenizeByotBatch vault cl va tb env records this = (Inr r, this1)"
  shows "length (calls this1) = Suc (length (calls this))"
proof -
  obtain g this0 where g: "getClient cl va (Some env) this = (g, this0)"
    by (cases "getClient cl va (Some env) this")
  from getClient_cases [OF g] assms g show ?thesis
    by (auto simp: tokenizeByotBatch_def Let_def split: prod.splits sum.splits)
qed

lemma detokenizeBatch_count:
  assumes "detokenizeBatch vault cl va options env tokens this = (Inr r, this1)"
  shows "length (calls this1) = Suc (length (calls this))"
proof -
  obtain g this0 where g: "getClient cl va (Some env) this = (g, this0)"
    by (cases "getClient cl va (Some env) this")
  from getClient_cases [OF g] assms g show ?thesis
    by (auto simp: detokenizeBatch_def Let_def split: prod.splits sum.splits)
qed

lemma or25_falsy: "v \<in> {Absent, CNull, CNaN, CNum 0} \<Longrightarrow> or25 v = 25"
  by (auto simp: or25_def)

lemma or25_nonzero: "or25 v \<noteq> 0"
  by (simp add: or25_def split: conf_value.splits)

lemma max_ceil_div:
  assumes "0 < B"
  shows "max 1 (ceil_div (length xs) B) = (if xs = [] then 1 else ceil_div (length xs) B)"
proof (cases "xs = []")
  case True
  have "ceil_div 0 B = 0" using assms by (simp add: ceil_div_def)
  then show ?thesis using True by simp
next
  case False
  have "1 \<le> length (chunks B xs)" using False assms by (simp add: chunks_Cons)
  then have "1 \<le> ceil_div (length xs) B" using assms by (simp add: length_chunks)
  then show ?thesis using False by simp
qed

lemma dispatch25_count:
  assumes step: "\<And>b s r s'. invoke b s = (Inr r, s') \<Longrightarrow> length (calls s') = Suc (length (calls s))"
  shows "\<exists>r this1. dispatch 25 invoke items this = Some (r, this1)
           \<and> (\<forall>res. r = Inr res \<longrightarrow>
                 length (calls this1) = length (calls this)
                   + (if items = [] then 1 else ceil_div (length items) 25))"
proof -
  have d: "dispatch 25 invoke items this = Some (dispatch_spec 25 invoke items this)"
    using dispatch_eq_spec [of 25 invoke items this] by simp
  obtain r this1 where s: "dispatch_spec 25 invoke items this = (r, this1)"
    by (cases "dispatch_spec 25 invoke items this")
  have cnt: "length (calls this1) = length (calls this)
                   + (if items = [] then 1 else ceil_div (length items) 25)"
    if r: "r = Inr res" for res
  proof -
    have "length (calls this1) = length (calls this) + max 1 (ceil_div (length items) 25)"
    proof (rule dispatch_spec_count [where invoke = invoke and lg = calls])
      show "\<And>b s r s'. invoke b s = (Inr r, s') \<Longrightarrow> length (calls s') = Suc (length (calls s))"
        by (rule step)
      show "(0::nat) < 25" by simp
      show "dispatch_spec 25 invoke items this = (Inr res, this1)" using s r by simp
    qed
    then show ?thesis using max_ceil_div [of 25 items] by simp
  qed
  have run: "dispatch 25 invoke items this = Some (r, this1)" using d s by simp
  have all: "\<forall>res. r = Inr res \<longrightarrow>
                 length (calls this1) = length (calls this)
                   + (if items = [] then 1 else ceil_div (length items) 25)"
    using cnt by blast
  show ?thesis using run all by (intro exI conjI)
qed

text \<open>Client objects of a process.\<close>

lemma resolveRequest_client:
  "clientFor path (snd (resolveRequest fresh path2 cl va envArg p)) =
     (if String_includes path2 ''/processSnowflake'' = String_includes path ''/processSnowflake''
      then Some (snd (getClient cl va envArg (orNew fresh (clientFor path p))))
      else clientFor path p)"
  by (auto simp: resolveRequest_def clientFor_def split: prod.splits sum.splits)

lemma serveAll_keeps_entries:
  "clientFor path p = Some client \<Longrightarrow> this_clients client k = Some h \<Longrightarrow>
     \<exists>client1. clientFor path (serveAll fresh rs p) = Some client1 \<and> this_clients client1 k = Some h"
proof (induction rs arbitrary: p client)
  case Nil
  then show ?case by simp
next
  case (Cons r rs)
  obtain path2 cl va envArg where r: "r = (path2, cl, va, envArg)" by (cases r)
  let ?p1 = "snd (resolveRequest fresh path2 cl va envArg p)"
  have "\<exists>c1. clientFor path ?p1 = Some c1 \<and> this_clients c1 k = Some h"
    using Cons.prems by (simp add: resolveRequest_client orNew_def getClient_keeps_entries)
  then obtain c1 where "clientFor path ?p1 = Some c1" "this_clients c1 k = Some h" by blast
  from Cons.IH [OF this] show ?case by (simp add: r)
qed

lemma resolveRequest_cases:
  assumes "resolveRequest fresh path cl va envArg p = (Inr (m, h), p1)"
  shows "m = (if String_includes path ''/processSnowflake'' then SnowflakeModule else HandlerModule)
     \<and> (\<exists>client. clientFor path p1 = Some client
            \<and> getClient cl va envArg (orNew fresh (clientFor path p)) = (Inr h, client))"
  using assms by (auto simp: resolveRequest_def clientFor_def split: prod.splits sum.splits if_splits)

lemma resolveRequest_hit:
  assumes "clientFor path p = Some client"
    and "envOrDefault envArg \<in> {''SANDBOX'', ''PROD''}"
    and "this_clients client (cl @ '':'' @ va @ '':'' @ envOrDefault envArg) = Some h"
  shows "resolveRequest fresh path cl va envArg p =
           (Inr (if String_includes path ''/processSnowflake'' then SnowflakeModule else HandlerModule, h), p)"
proof -
  have "getClient cl va envArg client = (Inr h, client)"
    using assms(2,3) by (rule getClient_hit)
  then show ?thesis using assms(1)
    by (auto simp: resolveRequest_def clientFor_def orNew_def)
qed

lemma resolveRequest_snd:
  "snd (resolveRequest fresh path cl va envArg p) =
     (if String_includes path ''/processSnowflake''
      then p\<lparr>snowflake_skyflowClient :=
               Some (snd (getClient cl va envArg (orNew fresh (snowflake_skyflowClient p))))\<rparr>
      else p\<lparr>handler_skyflowClient :=
               Some (snd (getClient cl va envArg (orNew fresh (handler_skyflowClient p))))\<rparr>)"
  by (auto simp: resolveRequest_def split: prod.splits sum.splits)

lemma orNew_inv:
  assumes "cache_inv fresh" and "\<forall>client. v = Some client \<longrightarrow> cache_inv client"
  shows "cache_inv (snd (getClient cl va envArg (orNew fresh v)))"
  using assms by (cases v) (auto simp: orNew_def intro: getClient_inv)

lemma serveAll_inv:
  "cache_inv fresh \<Longrightarrow> process_inv p \<Longrightarrow> process_inv (serveAll fresh rs p)"
proof (induction rs arbitrary: p)
  case Nil
  then show ?case by simp
next
  case (Cons r rs)
  obtain path2 cl va envArg where r: "r = (path2, cl, va, envArg)" by (cases r)
  have h: "\<forall>client. handler_skyflowClient p = Some client \<longrightarrow> cache_inv client"
    and s: "\<forall>client. snowflake_skyflowClient p = Some client \<longrightarrow> cache_inv client"
    using Cons.prems(2) by (auto simp: process_inv_def)
  have "process_inv (snd (resolveRequest fresh path2 cl va envArg p))"
    using h s orNew_inv [OF Cons.prems(1) h, of cl va envArg]
      orNew_inv [OF Cons.prems(1) s, of cl va envArg]
    by (auto simp: resolveRequest_snd process_inv_def)
  from Cons.IH [OF Cons.prems(1) this] show ?case by (simp add: r)
qed

lemma distinct_constructions:
  assumes "this_clients fresh = Map.empty" and "constructed fresh = []"
  shows "distinct (map triple (constructedBy m (serveAll fresh reqs startProcess)))"
proof -
  have "cache_inv fresh" using assms(1,2) by (simp add: cache_inv_def)
  moreover have "process_inv (startProcess :: 'a process)"
    by (simp add: process_inv_def startProcess_def)
  ultimately have "process_inv (serveAll fresh reqs startProcess)" by (rule serveAll_inv)
  then show ?thesis
    by (cases m) (auto simp: process_inv_def constructedBy_def cache_inv_def split: option.splits)
qed

lemma same_module_reuse:
  assumes "resolveRequest fresh path cl va envArg p = (Inr (m, h), p1)"
    and "String_includes path2 ''/processSnowflake'' = String_includes path ''/processSnowflake''"
    and "envOrDefault envArg2 = envOrDefault envArg"
  shows "resolveRequest fresh path2 cl va envArg2 (serveAll fresh rs p1)
           = (Inr (m, h), serveAll fresh rs p1)"
proof -
  from resolveRequest_cases [OF assms(1)] obtain client where
    m: "m = (if String_includes path ''/processSnowflake'' then SnowflakeModule else HandlerModule)"
    and c: "clientFor path p1 = Some client"
    and g: "getClient cl va envArg (orNew fresh (clientFor path p)) = (Inr h, client)"
    by blast
  from getClient_cases [OF g]
  have env: "envOrDefault envArg \<in> {''SANDBOX'', ''PROD''}"
    and hit: "this_clients client (cl @ '':'' @ va @ '':'' @ envOrDefault envArg) = Some h"
    by auto
  from serveAll_keeps_entries [OF c hit, of fresh rs] obtain client1 where
    c1: "clientFor path (serveAll fresh rs p1) = Some client1"
    and hit1: "this_clients client1 (cl @ '':'' @ va @ '':'' @ envOrDefault envArg) = Some h"
    by blast
  have c2: "clientFor path2 (serveAll fresh rs p1) = Some client1"
    using c1 assms(2) by (simp add: clientFor_def)
  have "resolveRequest fresh path2 cl va envArg2 (serveAll fresh rs p1) =
           (Inr (if String_includes path2 ''/processSnowflake'' then SnowflakeModule else HandlerModule, h),
            serveAll fresh rs p1)"
    using c2 env hit1 unfolding assms(3) [symmetric] by (rule resolveRequest_hit)
  then show ?thesis using m assms(2) by simp
qed

section \<open>Batch sizes that are not positive\<close>

text \<open>
  Only the falsy values are replaced by 25; a negative configured batch size is used
  as it is. With a batch size that is not positive the slicing loop of a non-empty
  input never ends, so the dispatch does not return.
\<close>

lemma splitBatches_returns_positive:
  assumes "splitBatches B xs i acc = Some y"
  shows "i < int (length xs) \<longrightarrow> 0 < B"
proof (rule splitBatches.raw_induct
    [where P = "\<lambda>B xs i acc y. i < int (length xs) \<longrightarrow> 0 < B", OF _ assms])
  fix f B and xs :: "'a list" and i acc y
  assume IH: "\<And>B (xs :: 'a list) i acc y. f B xs i acc = Some y \<Longrightarrow> i < int (length xs) \<longrightarrow> 0 < B"
    and st: "(if i < int (length xs) then f B xs (i + B) (acc @ [slice xs i (i + B)])
              else Some acc) = Some y"
  show "i < int (length xs) \<longrightarrow> 0 < B"
  proof
    assume lt: "i < int (length xs)"
    then have "f B xs (i + B) (acc @ [slice xs i (i + B)]) = Some y" using st by simp
    then have "i + B < int (length xs) \<longrightarrow> 0 < B" by (rule IH)
    then show "0 < B" using lt by (cases "0 < B") auto
  qed
qed

lemma dispatch_nonpositive_diverges:
  assumes "B \<le> 0" and "items \<noteq> []"
  shows "dispatch B invoke items s = None"
proof -
  have gt: "\<not> int (length items) \<le> B" using assms by (cases items) auto
  have "splitBatches B items 0 [] = None"
  proof (cases "splitBatches B items 0 []")
    case None
    then show ?thesis .
  next
    case (Some y)
    then have "0 < int (length items) \<longrightarrow> 0 < B" by (rule splitBatches_returns_positive)
    then show ?thesis using assms by (cases items) auto
  qed
  then show ?thesis using gt by (simp add: dispatch_def)
qed

section \<open>Claims\<close>

text \<open>
  C1. For an effective batch size \<open>B > 0\<close>, \<open>tokenize\<close>, \<open>tokenizeByot\<close> and
  \<open>detokenize\<close> do what the specification's dispatcher does with their batch call:
  one call on the whole list, its result returned unchanged, when the list has at
  most \<open>B\<close> items; otherwise one call per chunk, in input order, the results
  concatenated in chunk order. The chunks are \<open>ceil(N / B)\<close> many, they are the
  consecutive pieces \<open>take B (drop (k * B) items)\<close> of the input, each non-empty and of
  at most \<open>B\<close> items, and they concatenate to the input. When every chunk result has
  one output per input, output position \<open>i\<close> is position \<open>i mod B\<close> of the result of
  chunk \<open>i div B\<close>, the chunk and position of input item \<open>i\<close>.
\<close>

theorem batched_dispatch_in_order:
  assumes "0 < B"
  shows
    "(or25 (tokenize_batchSize (this_batching this)) = int B \<longrightarrow>
        tokenize vault cl va tb records options envArg this =
          Some (dispatch_spec B (tokenizeBatch vault cl va tb options (envOrDefault envArg))
                  records this)
      \<and> tokenizeByot vault cl va tb records envArg this =
          Some (dispatch_spec B (tokenizeByotBatch vault cl va tb (envOrDefault envArg))
                  records this))
     \<and> (or25 (detokenize_batchSize (this_batching this)) = int B \<longrightarrow>
        detokenize vault cl va tokens options envArg this =
          Some (dispatch_spec B (detokenizeBatch vault cl va options (envOrDefault envArg))
                  tokens this))
     \<and> length (chunks B items) = ceil_div (length items) B
     \<and> concat (chunks B items) = items
     \<and> (\<forall>k < length (chunks B items).
           chunks B items ! k = take B (drop (k * B) items)
           \<and> 0 < length (chunks B items ! k) \<and> length (chunks B items ! k) \<le> B)
     \<and> (\<forall>outs i.
           list_all2 (\<lambda>r c. length (data r) = length c) outs (chunks B items) \<and> i < length items
           \<longrightarrow> data (concatResults outs) ! i = data (outs ! (i div B)) ! (i mod B))"
proof -
  have pos: "0 < int B" using assms by simp
  have ops1: "or25 (tokenize_batchSize (this_batching this)) = int B \<longrightarrow>
        tokenize vault cl va tb records options envArg this =
          Some (dispatch_spec B (tokenizeBatch vault cl va tb options (envOrDefault envArg))
                  records this)
      \<and> tokenizeByot vault cl va tb records envArg this =
          Some (dispatch_spec B (tokenizeByotBatch vault cl va tb (envOrDefault envArg))
                  records this)"
    by (simp add: tokenize_dispatch tokenizeByot_dispatch dispatch_eq_spec [OF pos])
  have ops2: "or25 (detokenize_batchSize (this_batching this)) = int B \<longrightarrow>
        detokenize vault cl va tokens options envArg this =
          Some (dispatch_spec B (detokenizeBatch vault cl va options (envOrDefault envArg))
                  tokens this)"
    by (simp add: detokenize_dispatch dispatch_eq_spec [OF pos])
  have len: "length (chunks B items) = ceil_div (length items) B"
    using assms by (rule length_chunks)
  have cat: "concat (chunks B items) = items"
    using assms by (rule concat_chunks)
  have nth: "\<forall>k < length (chunks B items).
           chunks B items ! k = take B (drop (k * B) items)
           \<and> 0 < length (chunks B items ! k) \<and> length (chunks B items ! k) \<le> B"
    using chunk_nth_facts [OF assms] by blast
  have pos_ok: "\<forall>outs i.
           list_all2 (\<lambda>r c. length (data r) = length c) outs (chunks B items) \<and> i < length items
           \<longrightarrow> data (concatResults outs) ! i = data (outs ! (i div B)) ! (i mod B)"
    using concat_results_nth [OF assms] by blast
  show ?thesis using ops1 ops2 len cat nth pos_ok by - (intro conjI; assumption)
qed

theorem batched_dispatch_in_order_witness:
  "(0::nat) < 2
   \<and> or25 (detokenize_batchSize (this_batching (newClient batching2))) = int 2
   \<and> detokenize (stubVault None) ''c'' ''v'' [JStr ''t1'', JStr ''t2'', JStr ''t3''] [] None
        (newClient batching2)
      = Some (dispatch_spec 2 (detokenizeBatch (stubVault None) ''c'' ''v'' [] (envOrDefault None))
                [JStr ''t1'', JStr ''t2'', JStr ''t3''] (newClient batching2))
   \<and> map_option (\<lambda>(r, t). (r, length (calls t)))
        (detokenize (stubVault None) ''c'' ''v'' [JStr ''t1'', JStr ''t2'', JStr ''t3''] [] None
           (newClient batching2))
      = Some (Inr \<lparr>data = [[(''token'', JStr ''t1''), (''value'', JStr ''plain-t1'')],
                           [(''token'', JStr ''t2''), (''value'', JStr ''plain-t2'')],
                           [(''token'', JStr ''t3''), (''value'', JStr ''plain-t3'')]],
                   errors = None\<rparr>, 2)"
proof -
  have h1: "(0::nat) < 2" by simp
  have h2: "or25 (detokenize_batchSize (this_batching (newClient batching2))) = int 2"
    by (simp add: or25_def newClient_def batching2_def)
  have t: "detokenize (stubVault None) ''c'' ''v'' [JStr ''t1'', JStr ''t2'', JStr ''t3''] [] None
        (newClient batching2)
      = Some (dispatch_spec 2 (detokenizeBatch (stubVault None) ''c'' ''v'' [] (envOrDefault None))
                [JStr ''t1'', JStr ''t2'', JStr ''t3''] (newClient batching2))"
    using batched_dispatch_in_order [OF h1, where this = "newClient batching2"
        and vault = "stubVault None" and cl = "''c''" and va = "''v''" and tb = "''t''"
        and records = "[]" and options = "[]" and envArg = None
        and tokens = "[JStr ''t1'', JStr ''t2'', JStr ''t3'']" and items = "[]::nat list"] h2
    by simp
  have e: "map_option (\<lambda>(r, t). (r, length (calls t)))
        (detokenize (stubVault None) ''c'' ''v'' [JStr ''t1'', JStr ''t2'', JStr ''t3''] [] None
           (newClient batching2))
      = Some (Inr \<lparr>data = [[(''token'', JStr ''t1''), (''value'', JStr ''plain-t1'')],
                           [(''token'', JStr ''t2''), (''value'', JStr ''plain-t2'')],
                           [(''token'', JStr ''t3''), (''value'', JStr ''plain-t3'')]],
                   errors = None\<rparr>, 2)"
    by code_simp
  show ?thesis using h1 h2 t e by - (intro conjI; assumption)
qed

text \<open>
  C2. In a dispatch of more than one chunk (\<open>B < N\<close>): when the chunks before some
  chunk \<open>c\<close> were fulfilled and the batch call on \<open>c\<close> rejects with \<open>e\<close>, the
  dispatch fails with \<open>e\<close> alone (no data and no row-level errors of the earlier
  chunks are returned), in the state the rejected call left, so no later chunk is
  invoked. When no batch call rejects, the row-level errors the chunks report do not
  abort anything: they are concatenated into the result, next to the data.
\<close>

theorem rejected_chunk_fails_dispatch:
  assumes "0 < B" and "B < length items"
  shows
    "(\<forall>pre c post outs s1 e s2.
        chunks B items = pre @ c # post
        \<and> invokeEach invoke pre s = (Inr outs, s1)
        \<and> invoke c s1 = (Inl e, s2)
        \<longrightarrow> dispatch (int B) invoke items s = Some (Inl e, s2))
     \<and> (\<forall>outs s'.
        invokeEach invoke (chunks B items) s = (Inr outs, s')
        \<longrightarrow> dispatch (int B) invoke items s =
              Some (Inr \<lparr>data = concat (map data outs),
                         errors = (if concat (map errorsOf outs) = [] then None
                                   else Some (concat (map errorsOf outs)))\<rparr>, s'))"
proof (intro conjI allI impI)
  fix pre c post outs s1 e s2
  assume a: "chunks B items = pre @ c # post
        \<and> invokeEach invoke pre s = (Inr outs, s1)
        \<and> invoke c s1 = (Inl e, s2)"
  then have "invokeEach invoke (chunks B items) s = (Inl e, s2)"
    by (simp add: invokeEach_append)
  then show "dispatch (int B) invoke items s = Some (Inl e, s2)"
    by (simp add: dispatch_multi [OF assms])
next
  fix outs s'
  assume "invokeEach invoke (chunks B items) s = (Inr outs, s')"
  then show "dispatch (int B) invoke items s =
              Some (Inr \<lparr>data = concat (map data outs),
                         errors = (if concat (map errorsOf outs) = [] then None
                                   else Some (concat (map errorsOf outs)))\<rparr>, s')"
    by (simp add: dispatch_multi [OF assms] concatResults_def)
qed

theorem rejected_chunk_fails_dispatch_witness:
  "(0::nat) < 2
   \<and> 2 < length [JStr ''t1'', JNull, JStr ''t3'']
   \<and> chunks 2 [JStr ''t1'', JNull, JStr ''t3''] = [[JStr ''t1'', JNull]] @ [JStr ''t3''] # []
   \<and> fst (invokeEach (detokenizeBatch (stubVault (Some 1)) ''c'' ''v'' [] ''PROD'')
             [[JStr ''t1'', JNull]] (newClient batching2))
       = Inr [\<lparr>data = [[(''token'', JStr ''t1''), (''value'', JStr ''plain-t1'')]],
                errors = Some [JStr ''token not found'']\<rparr>]
   \<and> fst (detokenizeBatch (stubVault (Some 1)) ''c'' ''v'' [] ''PROD'' [JStr ''t3'']
            (snd (invokeEach (detokenizeBatch (stubVault (Some 1)) ''c'' ''v'' [] ''PROD'')
                    [[JStr ''t1'', JNull]] (newClient batching2))))
       = Inl (DetokenizationFailed ''unavailable'')
   \<and> map_option fst
        (detokenize (stubVault (Some 1)) ''c'' ''v'' [JStr ''t1'', JNull, JStr ''t3''] [] None
           (newClient batching2))
       = Some (Inl (DetokenizationFailed ''unavailable''))
   \<and> fst (invokeEach (detokenizeBatch (stubVault None) ''c'' ''v'' [] ''PROD'')
             (chunks 2 [JStr ''t1'', JNull, JStr ''t3'']) (newClient batching2))
       = Inr [\<lparr>data = [[(''token'', JStr ''t1''), (''value'', JStr ''plain-t1'')]],
                errors = Some [JStr ''token not found'']\<rparr>,
              \<lparr>data = [[(''token'', JStr ''t3''), (''value'', JStr ''plain-t3'')]],
                errors = None\<rparr>]
   \<and> map_option fst
        (detokenize (stubVault None) ''c'' ''v'' [JStr ''t1'', JNull, JStr ''t3''] [] None
           (newClient batching2))
       = Some (Inr \<lparr>data = [[(''token'', JStr ''t1''), (''value'', JStr ''plain-t1'')],
                            [(''token'', JStr ''t3''), (''value'', JStr ''plain-t3'')]],
                    errors = Some [JStr ''token not found'']\<rparr>)"
proof -
  let ?items = "[JStr ''t1'', JNull, JStr ''t3'']"
  let ?s = "newClient batching2"
  let ?bad = "detokenizeBatch (stubVault (Some 1)) ''c'' ''v'' [] ''PROD''"
  let ?good = "detokenizeBatch (stubVault None) ''c'' ''v'' [] ''PROD''"
  let ?r1 = "\<lparr>data = [[(''token'', JStr ''t1''), (''value'', JStr ''plain-t1'')]],
                errors = Some [JStr ''token not found'']\<rparr> :: (obj, js) batch_result"
  let ?r2 = "\<lparr>data = [[(''token'', JStr ''t3''), (''value'', JStr ''plain-t3'')]],
                errors = None\<rparr> :: (obj, js) batch_result"
  have h1: "(0::nat) < 2" by simp
  have h2: "2 < length ?items" by simp
  have h3: "chunks 2 ?items = [[JStr ''t1'', JNull]] @ [JStr ''t3''] # []" by code_simp
  have h4: "fst (invokeEach ?bad [[JStr ''t1'', JNull]] ?s) = Inr [?r1]" by code_simp
  have h5: "fst (?bad [JStr ''t3''] (snd (invokeEach ?bad [[JStr ''t1'', JNull]] ?s)))
              = Inl (DetokenizationFailed ''unavailable'')" by code_simp
  have h6: "fst (invokeEach ?good (chunks 2 ?items) ?s) = Inr [?r1, ?r2]" by code_simp
  have b: "or25 (detokenize_batchSize (this_batching ?s)) = int 2"
    by (simp add: or25_def newClient_def batching2_def)
  have d: "detokenize vault ''c'' ''v'' ?items [] None ?s
             = dispatch (int 2) (detokenizeBatch vault ''c'' ''v'' [] ''PROD'') ?items ?s" for vault
    using b by (simp add: detokenize_dispatch envOrDefault_def)
  note main = rejected_chunk_fails_dispatch [OF h1 h2]
  have p1: "invokeEach ?bad [[JStr ''t1'', JNull]] ?s
              = (Inr [?r1], snd (invokeEach ?bad [[JStr ''t1'', JNull]] ?s))"
    using h4 by (simp add: prod_eq_iff)
  have p2: "?bad [JStr ''t3''] (snd (invokeEach ?bad [[JStr ''t1'', JNull]] ?s))
              = (Inl (DetokenizationFailed ''unavailable''),
                 snd (?bad [JStr ''t3''] (snd (invokeEach ?bad [[JStr ''t1'', JNull]] ?s))))"
    using h5 by (simp add: prod_eq_iff)
  have c1: "dispatch (int 2) ?bad ?items ?s
              = Some (Inl (DetokenizationFailed ''unavailable''),
                      snd (?bad [JStr ''t3''] (snd (invokeEach ?bad [[JStr ''t1'', JNull]] ?s))))"
    using main [of ?bad ?s] h3 p1 p2 by blast
  have p3: "invokeEach ?good (chunks 2 ?items) ?s
              = (Inr [?r1, ?r2], snd (invokeEach ?good (chunks 2 ?items) ?s))"
    using h6 by (simp add: prod_eq_iff)
  have c2: "dispatch (int 2) ?good ?items ?s
              = Some (Inr \<lparr>data = concat (map data [?r1, ?r2]),
                         errors = (if concat (map errorsOf [?r1, ?r2]) = [] then None
                                   else Some (concat (map errorsOf [?r1, ?r2])))\<rparr>,
                      snd (invokeEach ?good (chunks 2 ?items) ?s))"
    using main [of ?good ?s] p3 by blast
  have w1: "map_option fst (detokenize (stubVault (Some 1)) ''c'' ''v'' ?items [] None ?s)
       = Some (Inl (DetokenizationFailed ''unavailable''))"
  proof -
    have "detokenize (stubVault (Some 1)) ''c'' ''v'' ?items [] None ?s
              = Some (Inl (DetokenizationFailed ''unavailable''),
                      snd (?bad [JStr ''t3''] (snd (invokeEach ?bad [[JStr ''t1'', JNull]] ?s))))"
      unfolding d by (rule c1)
    then show ?thesis by (simp only: option.map fst_conv)
  qed
  have w2: "map_option fst (detokenize (stubVault None) ''c'' ''v'' ?items [] None ?s)
       = Some (Inr \<lparr>data = [[(''token'', JStr ''t1''), (''value'', JStr ''plain-t1'')],
                            [(''token'', JStr ''t3''), (''value'', JStr ''plain-t3'')]],
                    errors = Some [JStr ''token not found'']\<rparr>)"
  proof -
    have r: "concat (map data [?r1, ?r2])
               = [[(''token'', JStr ''t1''), (''value'', JStr ''plain-t1'')],
                  [(''token'', JStr ''t3''), (''value'', JStr ''plain-t3'')]]"
      and e: "concat (map errorsOf [?r1, ?r2]) = [JStr ''token not found'']"
      by (simp_all add: errorsOf_def)
    have "detokenize (stubVault None) ''c'' ''v'' ?items [] None ?s
              = Some (Inr \<lparr>data = concat (map data [?r1, ?r2]),
                         errors = (if concat (map errorsOf [?r1, ?r2]) = [] then None
                                   else Some (concat (map errorsOf [?r1, ?r2])))\<rparr>,
                      snd (invokeEach ?good (chunks 2 ?items) ?s))"
      unfolding d by (rule c2)
    then show ?thesis unfolding r e by (simp only: option.map fst_conv list.distinct if_False)
  qed
  show ?thesis using h1 h2 h3 h4 h5 w1 h6 w2 by - (intro conjI; assumption)
qed

text \<open>
  C3. When the dispatched operation fulfils with a response, the handler answers with
  rows whose row numbers are exactly the input row numbers, position by position,
  whatever those numbers are; and when the response has one output per input row,
  the result at each position is read from the output at that position (its
  \<open>value\<close> for detokenize, its column for tokenize; for tokenize the table and column
  headers must be present).
\<close>

theorem row_numbers_rezipped:
  "(\<forall>response this1.
       detokenize vault (rc_clusterId rc) (rc_vaultId rc) (map snd rows) [] None this
         = Some (Inr response, this1)
       \<longrightarrow> (\<exists>out. handleDetokenize vault rows rc this = Some (Inr out, this1)
             \<and> map fst out = map fst rows
             \<and> (length (data response) = length rows
                \<longrightarrow> map snd out = map (\<lambda>record. property record ''value'') (data response))))
   \<and> (\<forall>table columnName response this1.
       rc_table rc = Some table \<and> table \<noteq> []
       \<and> rc_columnName rc = Some columnName \<and> columnName \<noteq> []
       \<and> tokenize vault (rc_clusterId rc) (rc_vaultId rc) table
            (map (\<lambda>val. [(columnName, val)]) (map snd rows)) [] None this
          = Some (Inr response, this1)
       \<longrightarrow> (\<exists>out. handleTokenize vault rows rc this = Some (Inr out, this1)
             \<and> map fst out = map fst rows
             \<and> (length (data response) = length rows
                \<longrightarrow> map snd out = map (\<lambda>record. property record columnName) (data response))))"
proof (intro conjI allI impI)
  fix response this1
  assume d: "detokenize vault (rc_clusterId rc) (rc_vaultId rc) (map snd rows) [] None this
         = Some (Inr response, this1)"
  let ?vals = "map (\<lambda>record. property record ''value'') (data response)"
  have "handleDetokenize vault rows rc this = Some (Inr (zipRows (map fst rows) ?vals), this1)"
    using d by (simp add: handleDetokenize_def Let_def)
  moreover have "map fst (zipRows (map fst rows) ?vals) = map fst rows"
    by (rule zipRows_fst)
  moreover have "length (data response) = length rows
      \<longrightarrow> map snd (zipRows (map fst rows) ?vals) = ?vals"
    by (simp add: zipRows_snd)
  ultimately show "\<exists>out. handleDetokenize vault rows rc this = Some (Inr out, this1)
             \<and> map fst out = map fst rows
             \<and> (length (data response) = length rows
                \<longrightarrow> map snd out = map (\<lambda>record. property record ''value'') (data response))"
    by (intro exI conjI)
next
  fix table columnName response this1
  assume a: "rc_table rc = Some table \<and> table \<noteq> []
       \<and> rc_columnName rc = Some columnName \<and> columnName \<noteq> []
       \<and> tokenize vault (rc_clusterId rc) (rc_vaultId rc) table
            (map (\<lambda>val. [(columnName, val)]) (map snd rows)) [] None this
          = Some (Inr response, this1)"
  let ?tokens = "map (\<lambda>record. property record columnName) (data response)"
  have "handleTokenize vault rows rc this = Some (Inr (zipRows (map fst rows) ?tokens), this1)"
    using a by (simp add: handleTokenize_def Let_def)
  moreover have "map fst (zipRows (map fst rows) ?tokens) = map fst rows"
    by (rule zipRows_fst)
  moreover have "length (data response) = length rows
      \<longrightarrow> map snd (zipRows (map fst rows) ?tokens) = ?tokens"
    by (simp add: zipRows_snd)
  ultimately show "\<exists>out. handleTokenize vault rows rc this = Some (Inr out, this1)
             \<and> map fst out = map fst rows
             \<and> (length (data response) = length rows
                \<longrightarrow> map snd out = map (\<lambda>record. property record columnName) (data response))"
    by (intro exI conjI)
qed

theorem row_numbers_rezipped_witness:
  "map_option fst (detokenize (stubVault None) (rc_clusterId sampleConfig) (rc_vaultId sampleConfig)
       (map snd sampleRows) [] None (newClient batching2))
     = Some (Inr \<lparr>data = [[(''token'', JStr ''t1''), (''value'', JStr ''plain-t1'')],
                          [(''token'', JStr ''t2''), (''value'', JStr ''plain-t2'')],
                          [(''token'', JStr ''t3''), (''value'', JStr ''plain-t3'')]],
                  errors = None\<rparr>)
   \<and> map_option fst (handleDetokenize (stubVault None) sampleRows sampleConfig (newClient batching2))
     = Some (Inr [(JNum 7, JStr ''plain-t1''), (JNum 3, JStr ''plain-t2''),
                  (JNum 100, JStr ''plain-t3'')])
   \<and> rc_table sampleConfig = Some ''users'' \<and> ''users'' \<noteq> []
   \<and> rc_columnName sampleConfig = Some ''email'' \<and> ''email'' \<noteq> []
   \<and> map_option fst (tokenize (stubVault None) (rc_clusterId sampleConfig) (rc_vaultId sampleConfig)
       ''users'' (map (\<lambda>val. [(''email'', val)]) (map snd sampleRows)) [] None (newClient batching2))
     = Some (Inr \<lparr>data = [[(''email'', JStr ''t1'')], [(''email'', JStr ''t2'')],
                          [(''email'', JStr ''t3'')]],
                  errors = None\<rparr>)
   \<and> map_option fst (handleTokenize (stubVault None) sampleRows sampleConfig (newClient batching2))
     = Some (Inr [(JNum 7, JStr ''t1''), (JNum 3, JStr ''t2''), (JNum 100, JStr ''t3'')])"
proof -
  let ?s = "newClient batching2"
  let ?resp = "\<lparr>data = [[(''token'', JStr ''t1''), (''value'', JStr ''plain-t1'')],
                          [(''token'', JStr ''t2''), (''value'', JStr ''plain-t2'')],
                          [(''token'', JStr ''t3''), (''value'', JStr ''plain-t3'')]],
                  errors = None\<rparr> :: (obj, js) batch_result"
  let ?resp2 = "\<lparr>data = [[(''email'', JStr ''t1'')], [(''email'', JStr ''t2'')],
                          [(''email'', JStr ''t3'')]],
                  errors = None\<rparr> :: (obj, js) batch_result"
  note main = row_numbers_rezipped [of "stubVault None" sampleConfig sampleRows ?s]
  have rows: "map fst sampleRows = [JNum 7, JNum 3, JNum 100]" "length sampleRows = 3"
    by (simp_all add: sampleRows_def)
  have e1: "map_option fst (detokenize (stubVault None) (rc_clusterId sampleConfig)
       (rc_vaultId sampleConfig) (map snd sampleRows) [] None ?s) = Some (Inr ?resp)"
    by code_simp
  then obtain this1 where d: "detokenize (stubVault None) (rc_clusterId sampleConfig)
       (rc_vaultId sampleConfig) (map snd sampleRows) [] None ?s = Some (Inr ?resp, this1)"
    by (cases "detokenize (stubVault None) (rc_clusterId sampleConfig)
       (rc_vaultId sampleConfig) (map snd sampleRows) [] None ?s") auto
  from main [THEN conjunct1, rule_format, OF d] obtain out where
    o: "handleDetokenize (stubVault None) sampleRows sampleConfig ?s = Some (Inr out, this1)"
    and f: "map fst out = map fst sampleRows"
    and g: "length (data ?resp) = length sampleRows
              \<longrightarrow> map snd out = map (\<lambda>record. property record ''value'') (data ?resp)"
    by (elim exE conjE) (rule that, assumption+)
  have "map snd out = [JStr ''plain-t1'', JStr ''plain-t2'', JStr ''plain-t3'']"
    using g rows by (simp add: property_def)
  with f rows have "zip (map fst out) (map snd out)
      = [(JNum 7, JStr ''plain-t1''), (JNum 3, JStr ''plain-t2''), (JNum 100, JStr ''plain-t3'')]"
    by simp
  then have out: "out = [(JNum 7, JStr ''plain-t1''), (JNum 3, JStr ''plain-t2''),
                         (JNum 100, JStr ''plain-t3'')]"
    by (simp add: zip_map_fst_snd)
  have w1: "map_option fst (handleDetokenize (stubVault None) sampleRows sampleConfig ?s)
     = Some (Inr [(JNum 7, JStr ''plain-t1''), (JNum 3, JStr ''plain-t2''),
                  (JNum 100, JStr ''plain-t3'')])"
    using o out by simp
  have t1: "rc_table sampleConfig = Some ''users''" and t2: "''users'' \<noteq> []"
    and t3: "rc_columnName sampleConfig = Some ''email''" and t4: "''email'' \<noteq> []"
    by (simp_all add: sampleConfig_def)
  have e2: "map_option fst (tokenize (stubVault None) (rc_clusterId sampleConfig)
       (rc_vaultId sampleConfig) ''users'' (map (\<lambda>val. [(''email'', val)]) (map snd sampleRows))
       [] None ?s) = Some (Inr ?resp2)"
    by code_simp
  then obtain this2 where t: "tokenize (stubVault None) (rc_clusterId sampleConfig)
       (rc_vaultId sampleConfig) ''users'' (map (\<lambda>val. [(''email'', val)]) (map snd sampleRows))
       [] None ?s = Some (Inr ?resp2, this2)"
    by (cases "tokenize (stubVault None) (rc_clusterId sampleConfig)
       (rc_vaultId sampleConfig) ''users'' (map (\<lambda>val. [(''email'', val)]) (map snd sampleRows))
       [] None ?s") auto
  have hyp: "rc_table sampleConfig = Some ''users'' \<and> ''users'' \<noteq> []
       \<and> rc_columnName sampleConfig = Some ''email'' \<and> ''email'' \<noteq> []
       \<and> tokenize (stubVault None) (rc_clusterId sampleConfig) (rc_vaultId sampleConfig) ''users''
            (map (\<lambda>val. [(''email'', val)]) (map snd sampleRows)) [] None ?s
          = Some (Inr ?resp2, this2)"
    using t1 t2 t3 t4 t by - (intro conjI; assumption)
  from main [THEN conjunct2, rule_format, OF hyp] obtain out2 where
    o2: "handleTokenize (stubVault None) sampleRows sampleConfig ?s = Some (Inr out2, this2)"
    and f2: "map fst out2 = map fst sampleRows"
    and g2: "length (data ?resp2) = length sampleRows
              \<longrightarrow> map snd out2 = map (\<lambda>record. property record ''email'') (data ?resp2)"
    by (elim exE conjE) (rule that, assumption+)
  have "map snd out2 = [JStr ''t1'', JStr ''t2'', JStr ''t3'']"
    using g2 rows by (simp add: property_def)
  with f2 rows have "zip (map fst out2) (map snd out2)
      = [(JNum 7, JStr ''t1''), (JNum 3, JStr ''t2''), (JNum 100, JStr ''t3'')]"
    by simp
  then have out2: "out2 = [(JNum 7, JStr ''t1''), (JNum 3, JStr ''t2''), (JNum 100, JStr ''t3'')]"
    by (simp add: zip_map_fst_snd)
  have w2: "map_option fst (handleTokenize (stubVault None) sampleRows sampleConfig ?s)
     = Some (Inr [(JNum 7, JStr ''t1''), (JNum 3, JStr ''t2''), (JNum 100, JStr ''t3'')])"
    using o2 out2 by simp
  show ?thesis using e1 w1 t1 t2 t3 t4 e2 w2 by - (intro conjI; assumption)
qed

text \<open>
  C4. Every request a detokenize call sends to the vault is a detokenize request, and
  in all of them: when \<open>options.redactionType\<close> is not supplied (or is any other
  falsy value), no per-token object has a \<open>redactionType\<close>; when a truthy redaction
  mode is supplied, every per-token object has one.
\<close>

theorem redaction_only_when_supplied:
  assumes "detokenize vault cl va tokens options envArg this = Some (r, this1)"
  shows "\<exists>new. calls this1 = calls this @ new
           \<and> (\<forall>c \<in> set new. \<exists>h d. c = DetokenizeCall h va d True
                 \<and> (\<not> truthy (property options ''redactionType'')
                      \<longrightarrow> (\<forall>x \<in> set d. dd_redactionType x = None))
                 \<and> (truthy (property options ''redactionType'')
                      \<longrightarrow> (\<forall>x \<in> set d. dd_redactionType x \<noteq> None)))"
proof -
  from detokenize_log [OF assms] obtain new where
    n: "calls this1 = calls this @ new"
    and a: "\<forall>c \<in> set new. \<exists>h chunk. c = DetokenizeCall h va
                               (detokenizeData (property options ''redactionType'') chunk) True"
    unfolding extends_log_def by blast
  have "\<forall>c \<in> set new. \<exists>h d. c = DetokenizeCall h va d True
                 \<and> (\<not> truthy (property options ''redactionType'')
                      \<longrightarrow> (\<forall>x \<in> set d. dd_redactionType x = None))
                 \<and> (truthy (property options ''redactionType'')
                      \<longrightarrow> (\<forall>x \<in> set d. dd_redactionType x \<noteq> None))"
  proof
    fix c assume "c \<in> set new"
    then obtain h chunk where c: "c = DetokenizeCall h va
                               (detokenizeData (property options ''redactionType'') chunk) True"
      using a by blast
    show "\<exists>h d. c = DetokenizeCall h va d True
                 \<and> (\<not> truthy (property options ''redactionType'')
                      \<longrightarrow> (\<forall>x \<in> set d. dd_redactionType x = None))
                 \<and> (truthy (property options ''redactionType'')
                      \<longrightarrow> (\<forall>x \<in> set d. dd_redactionType x \<noteq> None))"
      unfolding c using detokenizeData_falsy detokenizeData_truthy by blast
  qed
  with n show ?thesis by blast
qed

theorem redaction_only_when_supplied_witness:
  "map_option (\<lambda>(r, t). calls t)
      (detokenize (stubVault None) ''c'' ''v'' [JStr ''t1'', JStr ''t2'', JStr ''t3''] [] None
         (newClient batching2))
     = Some [DetokenizeCall 0 ''v'' [\<lparr>dd_token = JStr ''t1'', dd_redactionType = None\<rparr>,
                                     \<lparr>dd_token = JStr ''t2'', dd_redactionType = None\<rparr>] True,
             DetokenizeCall 0 ''v'' [\<lparr>dd_token = JStr ''t3'', dd_redactionType = None\<rparr>] True]
   \<and> \<not> truthy (property [] ''redactionType'')
   \<and> (\<exists>r this1 new.
         detokenize (stubVault None) ''c'' ''v'' [JStr ''t1'', JStr ''t2'', JStr ''t3''] [] None
           (newClient batching2) = Some (r, this1)
         \<and> calls this1 = calls (newClient batching2) @ new \<and> new \<noteq> []
         \<and> (\<forall>c \<in> set new. \<exists>h d. c = DetokenizeCall h ''v'' d True
                \<and> (\<forall>x \<in> set d. dd_redactionType x = None)))
   \<and> map_option (\<lambda>(r, t). calls t)
      (detokenize (stubVault None) ''c'' ''v'' [JStr ''t1'', JStr ''t2'', JStr ''t3'']
         [(''redactionType'', JStr ''MASKED'')] None (newClient batching2))
     = Some [DetokenizeCall 0 ''v'' [\<lparr>dd_token = JStr ''t1'', dd_redactionType = Some (Member MASKED)\<rparr>,
                                     \<lparr>dd_token = JStr ''t2'', dd_redactionType = Some (Member MASKED)\<rparr>] True,
             DetokenizeCall 0 ''v'' [\<lparr>dd_token = JStr ''t3'', dd_redactionType = Some (Member MASKED)\<rparr>] True]"
proof -
  let ?run = "detokenize (stubVault None) ''c'' ''v'' [JStr ''t1'', JStr ''t2'', JStr ''t3''] [] None
         (newClient batching2)"
  let ?log = "[DetokenizeCall 0 ''v'' [\<lparr>dd_token = JStr ''t1'', dd_redactionType = None\<rparr>,
                                     \<lparr>dd_token = JStr ''t2'', dd_redactionType = None\<rparr>] True,
             DetokenizeCall 0 ''v'' [\<lparr>dd_token = JStr ''t3'', dd_redactionType = None\<rparr>] True]"
  have e1: "map_option (\<lambda>(r, t). calls t) ?run = Some ?log" by code_simp
  have f: "\<not> truthy (property [] ''redactionType'')" by (simp add: property_def)
  obtain r this1 where run: "?run = Some (r, this1)" and log: "calls this1 = ?log"
    using e1 by (cases ?run) auto
  from redaction_only_when_supplied [OF run] obtain new where
    n: "calls this1 = calls (newClient batching2) @ new"
    and a: "\<forall>c \<in> set new. \<exists>h d. c = DetokenizeCall h ''v'' d True
                 \<and> (\<not> truthy (property [] ''redactionType'')
                      \<longrightarrow> (\<forall>x \<in> set d. dd_redactionType x = None))
                 \<and> (truthy (property [] ''redactionType'')
                      \<longrightarrow> (\<forall>x \<in> set d. dd_redactionType x \<noteq> None))"
    by (elim exE conjE) (rule that, assumption+)
  have ne: "new \<noteq> []" using n log by (auto simp: newClient_def)
  have a': "\<forall>c \<in> set new. \<exists>h d. c = DetokenizeCall h ''v'' d True
                \<and> (\<forall>x \<in> set d. dd_redactionType x = None)"
    using a f by blast
  have ex: "\<exists>r this1 new. ?run = Some (r, this1)
         \<and> calls this1 = calls (newClient batching2) @ new \<and> new \<noteq> []
         \<and> (\<forall>c \<in> set new. \<exists>h d. c = DetokenizeCall h ''v'' d True
                \<and> (\<forall>x \<in> set d. dd_redactionType x = None))"
    using run n ne a' by (intro exI conjI)
  have e2: "map_option (\<lambda>(r, t). calls t)
      (detokenize (stubVault None) ''c'' ''v'' [JStr ''t1'', JStr ''t2'', JStr ''t3'']
         [(''redactionType'', JStr ''MASKED'')] None (newClient batching2))
     = Some [DetokenizeCall 0 ''v'' [\<lparr>dd_token = JStr ''t1'', dd_redactionType = Some (Member MASKED)\<rparr>,
                                     \<lparr>dd_token = JStr ''t2'', dd_redactionType = Some (Member MASKED)\<rparr>] True,
             DetokenizeCall 0 ''v'' [\<lparr>dd_token = JStr ''t3'', dd_redactionType = Some (Member MASKED)\<rparr>] True]"
    by code_simp
  show ?thesis using e1 f ex e2 by - (intro conjI; assumption)
qed

text \<open>
  C5, as the code has it. The cache belongs to a client object, and a process has
  two of them, one in each handler module. On one client object: once a triple has
  been resolved to a handle, resolving the same triple again, after any other
  resolutions \<open>rs\<close> (successful or not), returns the same handle and leaves the whole
  state as it is, so nothing is constructed; an environment other than \<open>SANDBOX\<close>
  and \<open>PROD\<close> makes the resolution fail with the state unchanged, so nothing is
  constructed or cached; from a new client object, no triple is ever constructed
  twice. In a process: once a request has resolved a triple to a handle, a later
  request for the same triple that is served by the same module, after any other
  requests \<open>reqs\<close>, gets the same handle and leaves the process as it is; and from
  the start of the process, the client object of each module constructs no triple
  twice.
\<close>

theorem client_cache_reuse:
  "(\<forall>h this1. getClient cl va envArg this = (Inr h, this1)
       \<longrightarrow> getClient cl va envArg (resolveAll rs this1) = (Inr h, resolveAll rs this1))
   \<and> (\<forall>e. e \<notin> {''SANDBOX'', ''PROD''}
       \<longrightarrow> getClient cl va (Some e) this = (Inl (InvalidEnvironment e), this))
   \<and> (this_clients this = Map.empty \<and> constructed this = []
       \<longrightarrow> distinct (map triple (constructed (resolveAll rs this))))
   \<and> (\<forall>m h p1 path2 envArg2.
         resolveRequest fresh path cl va envArg p = (Inr (m, h), p1)
         \<and> String_includes path2 ''/processSnowflake'' = String_includes path ''/processSnowflake''
         \<and> envOrDefault envArg2 = envOrDefault envArg
       \<longrightarrow> resolveRequest fresh path2 cl va envArg2 (serveAll fresh reqs p1)
             = (Inr (m, h), serveAll fresh reqs p1))
   \<and> (this_clients fresh = Map.empty \<and> constructed fresh = []
       \<longrightarrow> (\<forall>m. distinct (map triple (constructedBy m (serveAll fresh reqs startProcess)))))"
proof -
  have one: "\<forall>h this1. getClient cl va envArg this = (Inr h, this1)
       \<longrightarrow> getClient cl va envArg (resolveAll rs this1) = (Inr h, resolveAll rs this1)"
  proof (intro allI impI)
    fix h this1
    assume g: "getClient cl va envArg this = (Inr h, this1)"
    from getClient_cases [OF g]
    have env: "envOrDefault envArg \<in> {''SANDBOX'', ''PROD''}"
      and hit: "this_clients this1 (cl @ '':'' @ va @ '':'' @ envOrDefault envArg) = Some h"
      by auto
    from resolveAll_keeps_entries [OF hit, of rs] env
    show "getClient cl va envArg (resolveAll rs this1) = (Inr h, resolveAll rs this1)"
      by (rule getClient_hit [rotated])
  qed
  have two: "\<forall>e. e \<notin> {''SANDBOX'', ''PROD''}
       \<longrightarrow> getClient cl va (Some e) this = (Inl (InvalidEnvironment e), this)"
    by (simp add: getClient_def)
  have three: "this_clients this = Map.empty \<and> constructed this = []
       \<longrightarrow> distinct (map triple (constructed (resolveAll rs this)))"
  proof
    assume "this_clients this = Map.empty \<and> constructed this = []"
    then have "cache_inv this" by (simp add: cache_inv_def)
    then have "cache_inv (resolveAll rs this)" by (rule resolveAll_inv)
    then show "distinct (map triple (constructed (resolveAll rs this)))"
      by (simp add: cache_inv_def)
  qed
  have four: "\<forall>m h p1 path2 envArg2.
         resolveRequest fresh path cl va envArg p = (Inr (m, h), p1)
         \<and> String_includes path2 ''/processSnowflake'' = String_includes path ''/processSnowflake''
         \<and> envOrDefault envArg2 = envOrDefault envArg
       \<longrightarrow> resolveRequest fresh path2 cl va envArg2 (serveAll fresh reqs p1)
             = (Inr (m, h), serveAll fresh reqs p1)"
    using same_module_reuse [of fresh path cl va envArg p] by blast
  have five: "this_clients fresh = Map.empty \<and> constructed fresh = []
       \<longrightarrow> (\<forall>m. distinct (map triple (constructedBy m (serveAll fresh reqs startProcess))))"
    using distinct_constructions [of fresh] by blast
  show ?thesis using one two three four five by - (intro conjI; assumption)
qed

theorem client_cache_reuse_witness:
  "fst (getClient ''c1'' ''v1'' (Some ''SANDBOX'') (newClient batching2)) = Inr 0
   \<and> fst (getClient ''c1'' ''v1'' (Some ''SANDBOX'')
            (resolveAll [(''c2'', ''v2'', None), (''c1'', ''v1'', Some ''DEV'')]
               (snd (getClient ''c1'' ''v1'' (Some ''SANDBOX'') (newClient batching2))))) = Inr 0
   \<and> map triple (constructed (snd (getClient ''c1'' ''v1'' (Some ''SANDBOX'')
            (resolveAll [(''c2'', ''v2'', None), (''c1'', ''v1'', Some ''DEV'')]
               (snd (getClient ''c1'' ''v1'' (Some ''SANDBOX'') (newClient batching2)))))))
       = [(''c1'', ''v1'', ''SANDBOX''), (''c2'', ''v2'', ''PROD'')]
   \<and> ''DEV'' \<notin> {''SANDBOX'', ''PROD''}
   \<and> getClient ''c1'' ''v1'' (Some ''DEV'') (newClient batching2)
       = (Inl (InvalidEnvironment ''DEV''), newClient batching2)
   \<and> this_clients (newClient batching2) = Map.empty \<and> constructed (newClient batching2) = []
   \<and> distinct (map triple (constructed
          (resolveAll [(''c2'', ''v2'', None), (''c1'', ''v1'', Some ''DEV'')] (newClient batching2))))
   \<and> fst (resolveRequest (newClient batching2) ''/process'' ''c1'' ''v1'' (Some ''PROD'') startProcess)
       = Inr (HandlerModule, 0)
   \<and> String_includes ''/processDatabricks'' ''/processSnowflake''
       = String_includes ''/process'' ''/processSnowflake''
   \<and> envOrDefault None = envOrDefault (Some ''PROD'')
   \<and> fst (resolveRequest (newClient batching2) ''/processDatabricks'' ''c1'' ''v1'' None
            (serveAll (newClient batching2)
               [(''/processSnowflake/detokenize'', ''c1'', ''v1'', None),
                (''/process'', ''c2'', ''v2'', Some ''SANDBOX'')]
               (snd (resolveRequest (newClient batching2) ''/process'' ''c1'' ''v1'' (Some ''PROD'')
                       startProcess))))
       = Inr (HandlerModule, 0)
   \<and> map triple (constructedBy HandlerModule
          (snd (resolveRequest (newClient batching2) ''/processDatabricks'' ''c1'' ''v1'' None
            (serveAll (newClient batching2)
               [(''/processSnowflake/detokenize'', ''c1'', ''v1'', None),
                (''/process'', ''c2'', ''v2'', Some ''SANDBOX'')]
               (snd (resolveRequest (newClient batching2) ''/process'' ''c1'' ''v1'' (Some ''PROD'')
                       startProcess))))))
       = [(''c1'', ''v1'', ''PROD''), (''c2'', ''v2'', ''SANDBOX'')]
   \<and> distinct (map triple (constructedBy HandlerModule
          (serveAll (newClient batching2)
             [(''/processSnowflake/detokenize'', ''c1'', ''v1'', None),
              (''/process'', ''c2'', ''v2'', Some ''SANDBOX'')] startProcess)))"
proof -
  let ?s0 = "newClient batching2"
  let ?rs = "[(''c2'', ''v2'', None), (''c1'', ''v1'', Some ''DEV'')]"
  let ?s1 = "snd (getClient ''c1'' ''v1'' (Some ''SANDBOX'') ?s0)"
  let ?reqs = "[(''/processSnowflake/detokenize'', ''c1'', ''v1'', None),
                (''/process'', ''c2'', ''v2'', Some ''SANDBOX'')]"
  let ?p1 = "snd (resolveRequest ?s0 ''/process'' ''c1'' ''v1'' (Some ''PROD'')
                (startProcess :: nat process))"
  note main = client_cache_reuse [of "''c1''" "''v1''" "Some ''SANDBOX''" ?s0 ?rs]
  note proc = client_cache_reuse [of "''c1''" "''v1''" "Some ''PROD''" ?s0 ?rs
      ?s0 "''/process''" startProcess ?reqs]
  have h1: "fst (getClient ''c1'' ''v1'' (Some ''SANDBOX'') ?s0) = Inr 0" by code_simp
  then have g: "getClient ''c1'' ''v1'' (Some ''SANDBOX'') ?s0 = (Inr 0, ?s1)"
    by (simp add: prod_eq_iff)
  have again:
    "getClient ''c1'' ''v1'' (Some ''SANDBOX'') (resolveAll ?rs ?s1) = (Inr 0, resolveAll ?rs ?s1)"
    by (rule main [THEN conjunct1, rule_format, OF g])
  then have c1: "fst (getClient ''c1'' ''v1'' (Some ''SANDBOX'') (resolveAll ?rs ?s1)) = Inr 0"
    by simp
  have "map triple (constructed (resolveAll ?rs ?s1))
       = [(''c1'', ''v1'', ''SANDBOX''), (''c2'', ''v2'', ''PROD'')]"
    by code_simp
  then have c2: "map triple (constructed (snd (getClient ''c1'' ''v1'' (Some ''SANDBOX'')
            (resolveAll ?rs ?s1)))) = [(''c1'', ''v1'', ''SANDBOX''), (''c2'', ''v2'', ''PROD'')]"
    by (simp only: again snd_conv)
  have h2: "''DEV'' \<notin> {''SANDBOX'', ''PROD''}" by simp
  have c3: "getClient ''c1'' ''v1'' (Some ''DEV'') ?s0
       = (Inl (InvalidEnvironment ''DEV''), ?s0)"
    by (rule main [THEN conjunct2, THEN conjunct1, rule_format, OF h2])
  have h3: "this_clients ?s0 = Map.empty" and h4: "constructed ?s0 = []"
    by (simp_all add: newClient_def)
  have c4: "distinct (map triple (constructed (resolveAll ?rs ?s0)))"
    by (rule main [THEN conjunct2, THEN conjunct2, THEN conjunct1, rule_format, OF conjI [OF h3 h4]])
  have h5: "fst (resolveRequest ?s0 ''/process'' ''c1'' ''v1'' (Some ''PROD'') startProcess)
       = Inr (HandlerModule, 0)"
    by code_simp
  then have r: "resolveRequest ?s0 ''/process'' ''c1'' ''v1'' (Some ''PROD'') startProcess
       = (Inr (HandlerModule, 0), ?p1)"
    by (simp add: prod_eq_iff)
  have h6: "String_includes ''/processDatabricks'' ''/processSnowflake''
       = String_includes ''/process'' ''/processSnowflake''"
    by code_simp
  have h7: "envOrDefault None = envOrDefault (Some ''PROD'')" by (simp add: envOrDefault_def)
  have reuse: "resolveRequest ?s0 ''/processDatabricks'' ''c1'' ''v1'' None (serveAll ?s0 ?reqs ?p1)
       = (Inr (HandlerModule, 0), serveAll ?s0 ?reqs ?p1)"
    by (rule proc [THEN conjunct2, THEN conjunct2, THEN conjunct2, THEN conjunct1, rule_format,
          OF conjI [OF r conjI [OF h6 h7]]])
  then have c5: "fst (resolveRequest ?s0 ''/processDatabricks'' ''c1'' ''v1'' None
                        (serveAll ?s0 ?reqs ?p1)) = Inr (HandlerModule, 0)"
    by simp
  have "map triple (constructedBy HandlerModule (serveAll ?s0 ?reqs ?p1))
       = [(''c1'', ''v1'', ''PROD''), (''c2'', ''v2'', ''SANDBOX'')]"
    by code_simp
  then have c6: "map triple (constructedBy HandlerModule
          (snd (resolveRequest ?s0 ''/processDatabricks'' ''c1'' ''v1'' None (serveAll ?s0 ?reqs ?p1))))
       = [(''c1'', ''v1'', ''PROD''), (''c2'', ''v2'', ''SANDBOX'')]"
    by (simp only: reuse snd_conv)
  have c7: "distinct (map triple (constructedBy HandlerModule (serveAll ?s0 ?reqs startProcess)))"
    by (rule proc [THEN conjunct2, THEN conjunct2, THEN conjunct2, THEN conjunct2, rule_format,
          OF conjI [OF h3 h4]])
  show ?thesis using h1 c1 c2 h2 c3 h3 h4 c4 h5 h6 h7 c5 c6 c7 by - (intro conjI; assumption)
qed

text \<open>
  C5 as the claim states it, for the whole process, fails. A request to \<open>/process\<close>
  resolves the triple \<open>(c, v, PROD)\<close> on the client object of \<open>handler.js\<close>, which
  constructs a handle; a request to \<open>/processSnowflake/detokenize\<close> then resolves
  the same triple on the client object of \<open>snowflake-handler.js\<close>, whose cache is
  empty, so a second handle is constructed for the triple: the two resolutions
  return different handles, and the process has constructed the triple twice.
\<close>

theorem client_cache_two_modules_counterexample:
  "fst (resolveRequest (newClient batching2) ''/process'' ''c'' ''v'' (Some ''PROD'') startProcess)
       = Inr (HandlerModule, 0)
   \<and> map triple (constructions
          (snd (resolveRequest (newClient batching2) ''/process'' ''c'' ''v'' (Some ''PROD'')
                  startProcess)))
       = [(''c'', ''v'', ''PROD'')]
   \<and> fst (resolveRequest (newClient batching2) ''/processSnowflake/detokenize'' ''c'' ''v'' None
            (snd (resolveRequest (newClient batching2) ''/process'' ''c'' ''v'' (Some ''PROD'')
                    startProcess)))
       = Inr (SnowflakeModule, 0)
   \<and> fst (resolveRequest (newClient batching2) ''/processSnowflake/detokenize'' ''c'' ''v'' None
            (snd (resolveRequest (newClient batching2) ''/process'' ''c'' ''v'' (Some ''PROD'')
                    startProcess)))
       \<noteq> fst (resolveRequest (newClient batching2) ''/process'' ''c'' ''v'' (Some ''PROD'')
                startProcess)
   \<and> map triple (constructions
          (snd (resolveRequest (newClient batching2) ''/processSnowflake/detokenize'' ''c'' ''v'' None
                  (snd (resolveRequest (newClient batching2) ''/process'' ''c'' ''v'' (Some ''PROD'')
                          startProcess)))))
       = [(''c'', ''v'', ''PROD''), (''c'', ''v'', ''PROD'')]
   \<and> \<not> distinct (map triple (constructions
          (snd (resolveRequest (newClient batching2) ''/processSnowflake/detokenize'' ''c'' ''v'' None
                  (snd (resolveRequest (newClient batching2) ''/process'' ''c'' ''v'' (Some ''PROD'')
                          startProcess))))))"
proof -
  let ?s0 = "newClient batching2"
  let ?r1 = "resolveRequest ?s0 ''/process'' ''c'' ''v'' (Some ''PROD'') (startProcess :: nat process)"
  let ?r2 = "resolveRequest ?s0 ''/processSnowflake/detokenize'' ''c'' ''v'' None (snd ?r1)"
  have a: "fst ?r1 = Inr (HandlerModule, 0)" by code_simp
  have b: "map triple (constructions (snd ?r1)) = [(''c'', ''v'', ''PROD'')]" by code_simp
  have c: "fst ?r2 = Inr (SnowflakeModule, 0)" by code_simp
  have d: "fst ?r2 \<noteq> fst ?r1" unfolding a c by simp
  have e: "map triple (constructions (snd ?r2)) = [(''c'', ''v'', ''PROD''), (''c'', ''v'', ''PROD'')]"
    by code_simp
  have f: "\<not> distinct (map triple (constructions (snd ?r2)))" unfolding e by simp
  show ?thesis using a b c d e f by - (intro conjI; assumption)
qed

text \<open>
  C6. For a request with one record whose \<open>fields\<close> and \<open>tokens\<close> are objects, the
  validation succeeds exactly when both objects have keys and the \<open>join(',')\<close>
  texts of their sorted key lists are equal. The texts can be equal while the key
  lists differ, because a key may contain a comma: fields \<open>{"a,b": "x"}\<close> and tokens
  \<open>{"a": "t1", "b": "t2"}\<close> have different sorted key lists and pass the validation.
\<close>

theorem byot_validation_compares_joined_keys:
  "validateTokenizeByotRequest
      (JObj [(''records'', JArr [JObj [(''fields'', JObj fs), (''tokens'', JObj ts)]])])
     = Inr ()
   \<longleftrightarrow> fs \<noteq> [] \<and> ts \<noteq> []
       \<and> join '','' (sort (map fst fs)) = join '','' (sort (map fst ts))"
  by (simp add: validateTokenizeByotRequest_def checkByotRecord_def property_def Object_keys_def
        Let_def)

theorem byot_validation_compares_joined_keys_witness:
  "sort (map fst [(''a,b'', JStr ''x'')]) \<noteq> sort (map fst [(''a'', JStr ''t1''), (''b'', JStr ''t2'')])
   \<and> join '','' (sort (map fst [(''a,b'', JStr ''x'')]))
       = join '','' (sort (map fst [(''a'', JStr ''t1''), (''b'', JStr ''t2'')]))
   \<and> validateTokenizeByotRequest
        (JObj [(''records'',
                JArr [JObj [(''fields'', JObj [(''a,b'', JStr ''x'')]),
                            (''tokens'', JObj [(''a'', JStr ''t1''), (''b'', JStr ''t2'')])]])])
       = Inr ()"
proof -
  have h1: "sort (map fst [(''a,b'', JStr ''x'')])
              \<noteq> sort (map fst [(''a'', JStr ''t1''), (''b'', JStr ''t2'')])"
    by code_simp
  have h2: "join '','' (sort (map fst [(''a,b'', JStr ''x'')]))
       = join '','' (sort (map fst [(''a'', JStr ''t1''), (''b'', JStr ''t2'')]))"
    by code_simp
  have "[(''a,b'', JStr ''x'')] \<noteq> [] \<and> [(''a'', JStr ''t1''), (''b'', JStr ''t2'')] \<noteq> []
       \<and> join '','' (sort (map fst [(''a,b'', JStr ''x'')]))
           = join '','' (sort (map fst [(''a'', JStr ''t1''), (''b'', JStr ''t2'')]))"
    using h2 by simp
  then have c: "validateTokenizeByotRequest
        (JObj [(''records'',
                JArr [JObj [(''fields'', JObj [(''a,b'', JStr ''x'')]),
                            (''tokens'', JObj [(''a'', JStr ''t1''), (''b'', JStr ''t2'')])]])])
       = Inr ()"
    by (rule byot_validation_compares_joined_keys [THEN iffD2])
  show ?thesis using h1 h2 c by - (intro conjI; assumption)
qed

text \<open>
  C7. When the client is resolved and the vault answers the query, \<open>query\<close> returns
  one row per row of the answer, in the same order, and each returned row is the
  vault's row without \<open>tokenizedData\<close>: that key is absent, every other key-value
  pair is there exactly when it is in the vault's row, the keys keep their order,
  and every other key reads the same value.
\<close>

theorem query_strips_tokenizedData:
  assumes "fst (getClient cl va (Some (envOrDefault envArg)) this) = Inr client"
    and "fst (sdk_query vault client va sql
               (world (snd (getClient cl va (Some (envOrDefault envArg)) this)))) = Inr response"
  shows "\<exists>res this2. query vault cl va sql envArg this = (Inr res, this2)
      \<and> errors res = query_errors response
      \<and> length (data res) = length (orEmpty (query_fields response))
      \<and> (\<forall>i < length (orEmpty (query_fields response)).
            ''tokenizedData'' \<notin> fst ` set (data res ! i)
          \<and> (\<forall>k v. k \<noteq> ''tokenizedData'' \<longrightarrow>
                 ((k, v) \<in> set (data res ! i)) = ((k, v) \<in> set (orEmpty (query_fields response) ! i)))
          \<and> map fst (data res ! i)
              = filter (\<lambda>k. k \<noteq> ''tokenizedData'') (map fst (orEmpty (query_fields response) ! i))
          \<and> (\<forall>k. k \<noteq> ''tokenizedData'' \<longrightarrow>
                 property (data res ! i) k = property (orEmpty (query_fields response) ! i) k))"
proof -
  let ?rows = "orEmpty (query_fields response)"
  let ?clean = "\<lambda>record :: obj. filter (\<lambda>(k, v). k \<noteq> ''tokenizedData'') record"
  obtain this1 where g: "getClient cl va (Some (envOrDefault envArg)) this = (Inr client, this1)"
    using assms(1) by (cases "getClient cl va (Some (envOrDefault envArg)) this") auto
  obtain w where q: "sdk_query vault client va sql (world this1) = (Inr response, w)"
    using assms(2) g by (cases "sdk_query vault client va sql (world this1)") auto
  have run: "query vault cl va sql envArg this =
      (Inr \<lparr>data = map ?clean ?rows, errors = query_errors response\<rparr>,
       this1\<lparr>calls := calls this1 @ [QueryCall client va sql], world := w\<rparr>)"
    using g q by (simp add: query_def Let_def)
  have keys: "map fst (?clean rcd) = filter (\<lambda>k. k \<noteq> ''tokenizedData'') (map fst rcd)"
    for rcd :: obj
    by (induction rcd) auto
  have look: "k \<noteq> ''tokenizedData'' \<Longrightarrow> map_of (?clean rcd) k = map_of rcd k"
    for rcd :: obj and k
    by (induction rcd) auto
  have "\<forall>i < length ?rows.
            ''tokenizedData'' \<notin> fst ` set (map ?clean ?rows ! i)
          \<and> (\<forall>k v. k \<noteq> ''tokenizedData'' \<longrightarrow>
                 ((k, v) \<in> set (map ?clean ?rows ! i)) = ((k, v) \<in> set (?rows ! i)))
          \<and> map fst (map ?clean ?rows ! i)
              = filter (\<lambda>k. k \<noteq> ''tokenizedData'') (map fst (?rows ! i))
          \<and> (\<forall>k. k \<noteq> ''tokenizedData'' \<longrightarrow>
                 property (map ?clean ?rows ! i) k = property (?rows ! i) k)"
    by (auto simp: keys look property_def)
  then show ?thesis using run by simp
qed

theorem query_strips_tokenizedData_witness:
  "fst (getClient ''c'' ''v'' (Some (envOrDefault None)) (newClient batching2)) = Inr 0
   \<and> fst (sdk_query (stubVault None) 0 ''v'' ''SELECT * FROM t''
            (world (snd (getClient ''c'' ''v'' (Some (envOrDefault None)) (newClient batching2)))))
       = Inr \<lparr>query_fields = Some [[(''name'', JStr ''tok-1''), (''tokenizedData'', JNull),
                                     (''skyflow_id'', JStr ''id-1'')]],
              query_errors = None\<rparr>
   \<and> (\<exists>res this2.
         query (stubVault None) ''c'' ''v'' ''SELECT * FROM t'' None (newClient batching2) = (Inr res, this2)
         \<and> map (map fst) (data res) = [[''name'', ''skyflow_id'']])"
proof -
  let ?response = "\<lparr>query_fields = Some [[(''name'', JStr ''tok-1''), (''tokenizedData'', JNull),
                                     (''skyflow_id'', JStr ''id-1'')]],
              query_errors = None\<rparr>"
  have h1: "fst (getClient ''c'' ''v'' (Some (envOrDefault None)) (newClient batching2)) = Inr 0"
    by code_simp
  have h2: "fst (sdk_query (stubVault None) 0 ''v'' ''SELECT * FROM t''
            (world (snd (getClient ''c'' ''v'' (Some (envOrDefault None)) (newClient batching2)))))
       = Inr ?response"
    by code_simp
  from query_strips_tokenizedData [OF h1 h2] obtain res this2 where
    r: "query (stubVault None) ''c'' ''v'' ''SELECT * FROM t'' None (newClient batching2) = (Inr res, this2)"
    and l: "length (data res) = length (orEmpty (query_fields ?response))"
    and k: "\<forall>i < length (orEmpty (query_fields ?response)).
            ''tokenizedData'' \<notin> fst ` set (data res ! i)
          \<and> (\<forall>k v. k \<noteq> ''tokenizedData'' \<longrightarrow>
                 ((k, v) \<in> set (data res ! i)) = ((k, v) \<in> set (orEmpty (query_fields ?response) ! i)))
          \<and> map fst (data res ! i)
              = filter (\<lambda>k. k \<noteq> ''tokenizedData'') (map fst (orEmpty (query_fields ?response) ! i))
          \<and> (\<forall>k. k \<noteq> ''tokenizedData'' \<longrightarrow>
                 property (data res ! i) k = property (orEmpty (query_fields ?response) ! i) k)"
    by (elim exE conjE) (rule that, assumption+)
  have "length (data res) = 1" using l by (simp add: orEmpty_def)
  moreover have "map fst (data res ! 0) = [''name'', ''skyflow_id'']"
    using k by (simp add: orEmpty_def)
  ultimately have "map (map fst) (data res) = [[''name'', ''skyflow_id'']]"
    by (cases "data res") auto
  with r have ex: "\<exists>res this2.
         query (stubVault None) ''c'' ''v'' ''SELECT * FROM t'' None (newClient batching2) = (Inr res, this2)
         \<and> map (map fst) (data res) = [[''name'', ''skyflow_id'']]"
    by (intro exI conjI)
  show ?thesis using h1 h2 ex by - (intro conjI; assumption)
qed

text \<open>
  C8. The empty name is never found: whatever the headers are, \<open>getHeader\<close> answers
  \<open>null\<close> for it, also when a key matches. The headers \<open>{"": "v"}\<close> have the key
  \<open>""\<close>, whose value is \<open>"v"\<close>, and the lookup of \<open>""\<close> gives \<open>null\<close>, because the key
  that was found is falsy.
\<close>

theorem getHeader_empty_name:
  "getHeader headers '''' = JNull"
proof (cases "find (\<lambda>k. toLowerCase k = toLowerCase '''') (Object_keys headers)")
  case None
  then show ?thesis by (simp add: getHeader_def Let_def)
next
  case (Some key)
  then have "toLowerCase key = toLowerCase ''''" by (auto simp: find_Some_iff)
  then have "key = []" by (simp add: toLowerCase_def)
  with Some show ?thesis by (simp add: getHeader_def Let_def)
qed

theorem getHeader_empty_name_witness:
  "'''' \<in> set (Object_keys (JObj [('''', JStr ''v'')]))
   \<and> toLowerCase '''' = toLowerCase ''''
   \<and> property (own_props (JObj [('''', JStr ''v'')])) '''' = JStr ''v''
   \<and> getHeader (JObj [('''', JStr ''v'')]) '''' = JNull"
proof -
  have h: "'''' \<in> set (Object_keys (JObj [('''', JStr ''v'')]))
   \<and> toLowerCase '''' = toLowerCase ''''
   \<and> property (own_props (JObj [('''', JStr ''v'')])) '''' = JStr ''v''"
    by code_simp
  have c: "getHeader (JObj [('''', JStr ''v'')]) '''' = JNull"
    by (rule getHeader_empty_name)
  show ?thesis using h c by simp
qed

text \<open>
  C9. \<open>RedactionType[redactionType]\<close> is a property access, and it also finds the
  properties that the enum object inherits from \<open>Object.prototype\<close>. When
  \<open>options.redactionType\<close> is the name of such a property (\<open>'constructor'\<close>,
  \<open>'toString'\<close>, ...), it is a truthy string that is none of the four enum names, and
  yet \<open>|| RedactionType.PLAIN_TEXT\<close> is not reached: every per-token object, in every
  request the call sends, carries the inherited property and not \<open>PLAIN_TEXT\<close>.
\<close>

theorem inherited_redaction_name_is_attached:
  assumes "property options ''redactionType'' = JStr name"
    and "name \<in> set Object_prototype_names"
  shows "truthy (JStr name)
     \<and> name \<notin> {''DEFAULT'', ''PLAIN_TEXT'', ''MASKED'', ''REDACTED''}
     \<and> detokenizeData (property options ''redactionType'') tokens
           = map (\<lambda>token. \<lparr>dd_token = token, dd_redactionType = Some (Inherited name)\<rparr>) tokens
     \<and> (\<forall>r this1. detokenize vault cl va tokens options envArg this = Some (r, this1)
           \<longrightarrow> (\<exists>new. calls this1 = calls this @ new
                  \<and> (\<forall>c \<in> set new. \<exists>h d. c = DetokenizeCall h va d True
                        \<and> (\<forall>x \<in> set d. dd_redactionType x = Some (Inherited name)
                                          \<and> dd_redactionType x \<noteq> Some (Member PLAIN_TEXT)))))"
proof (intro conjI allI impI)
  note facts = Object_prototype_name_facts [OF assms(2)]
  show "truthy (JStr name)" using facts(1) by simp
  show "name \<notin> {''DEFAULT'', ''PLAIN_TEXT'', ''MASKED'', ''REDACTED''}" by (rule facts(2))
  have u: "detokenizeData (property options ''redactionType'') chunk
           = map (\<lambda>token. \<lparr>dd_token = token, dd_redactionType = Some (Inherited name)\<rparr>) chunk"
    for chunk
    using assms by (rule detokenizeData_inherited)
  show "detokenizeData (property options ''redactionType'') tokens
           = map (\<lambda>token. \<lparr>dd_token = token, dd_redactionType = Some (Inherited name)\<rparr>) tokens"
    by (rule u)
  fix r this1
  assume run: "detokenize vault cl va tokens options envArg this = Some (r, this1)"
  from detokenize_log [OF run] obtain new where
    n: "calls this1 = calls this @ new"
    and a: "\<forall>c \<in> set new. \<exists>h chunk. c = DetokenizeCall h va
                               (detokenizeData (property options ''redactionType'') chunk) True"
    unfolding extends_log_def by blast
  have "\<forall>c \<in> set new. \<exists>h d. c = DetokenizeCall h va d True
                        \<and> (\<forall>x \<in> set d. dd_redactionType x = Some (Inherited name)
                                          \<and> dd_redactionType x \<noteq> Some (Member PLAIN_TEXT))"
  proof
    fix c assume "c \<in> set new"
    then obtain h chunk where c: "c = DetokenizeCall h va
                               (detokenizeData (property options ''redactionType'') chunk) True"
      using a by blast
    show "\<exists>h d. c = DetokenizeCall h va d True
                        \<and> (\<forall>x \<in> set d. dd_redactionType x = Some (Inherited name)
                                          \<and> dd_redactionType x \<noteq> Some (Member PLAIN_TEXT))"
      unfolding c u by auto
  qed
  with n show "\<exists>new. calls this1 = calls this @ new
                  \<and> (\<forall>c \<in> set new. \<exists>h d. c = DetokenizeCall h va d True
                        \<and> (\<forall>x \<in> set d. dd_redactionType x = Some (Inherited name)
                                          \<and> dd_redactionType x \<noteq> Some (Member PLAIN_TEXT)))"
    by blast
qed

theorem inherited_redaction_name_is_attached_witness:
  "property [(''redactionType'', JStr ''constructor'')] ''redactionType'' = JStr ''constructor''
   \<and> ''constructor'' \<in> set Object_prototype_names
   \<and> truthy (JStr ''constructor'')
   \<and> ''constructor'' \<notin> {''DEFAULT'', ''PLAIN_TEXT'', ''MASKED'', ''REDACTED''}
   \<and> detokenizeData (property [(''redactionType'', JStr ''constructor'')] ''redactionType'')
        [JStr ''t1'', JStr ''t2'']
       = [\<lparr>dd_token = JStr ''t1'', dd_redactionType = Some (Inherited ''constructor'')\<rparr>,
          \<lparr>dd_token = JStr ''t2'', dd_redactionType = Some (Inherited ''constructor'')\<rparr>]
   \<and> map_option (\<lambda>(r, t). (r, calls t))
        (detokenize (stubVault None) ''c'' ''v'' [JStr ''t1'', JStr ''t2'']
           [(''redactionType'', JStr ''constructor'')] None (newClient batching2))
       = Some (Inr \<lparr>data = [[(''token'', JStr ''t1''), (''value'', JStr ''plain-t1'')],
                            [(''token'', JStr ''t2''), (''value'', JStr ''plain-t2'')]],
                    errors = None\<rparr>,
               [DetokenizeCall 0 ''v''
                  [\<lparr>dd_token = JStr ''t1'', dd_redactionType = Some (Inherited ''constructor'')\<rparr>,
                   \<lparr>dd_token = JStr ''t2'', dd_redactionType = Some (Inherited ''constructor'')\<rparr>]
                  True])"
proof -
  let ?options = "[(''redactionType'', JStr ''constructor'')]"
  have h1: "property ?options ''redactionType'' = JStr ''constructor''" by (simp add: property_def)
  have h2: "''constructor'' \<in> set Object_prototype_names" by (simp add: Object_prototype_names_def)
  note main = inherited_redaction_name_is_attached [OF h1 h2,
      of "[JStr ''t1'', JStr ''t2'']" "stubVault None" "''c''" "''v''" None "newClient batching2"]
  have c1: "truthy (JStr ''constructor'')" by (rule main [THEN conjunct1])
  have c2: "''constructor'' \<notin> {''DEFAULT'', ''PLAIN_TEXT'', ''MASKED'', ''REDACTED''}"
    by (rule main [THEN conjunct2, THEN conjunct1])
  have c3: "detokenizeData (property ?options ''redactionType'') [JStr ''t1'', JStr ''t2'']
       = [\<lparr>dd_token = JStr ''t1'', dd_redactionType = Some (Inherited ''constructor'')\<rparr>,
          \<lparr>dd_token = JStr ''t2'', dd_redactionType = Some (Inherited ''constructor'')\<rparr>]"
    using main [THEN conjunct2, THEN conjunct2, THEN conjunct1] by simp
  have c4: "map_option (\<lambda>(r, t). (r, calls t))
        (detokenize (stubVault None) ''c'' ''v'' [JStr ''t1'', JStr ''t2'']
           ?options None (newClient batching2))
       = Some (Inr \<lparr>data = [[(''token'', JStr ''t1''), (''value'', JStr ''plain-t1'')],
                            [(''token'', JStr ''t2''), (''value'', JStr ''plain-t2'')]],
                    errors = None\<rparr>,
               [DetokenizeCall 0 ''v''
                  [\<lparr>dd_token = JStr ''t1'', dd_redactionType = Some (Inherited ''constructor'')\<rparr>,
                   \<lparr>dd_token = JStr ''t2'', dd_redactionType = Some (Inherited ''constructor'')\<rparr>]
                  True])"
    by code_simp
  show ?thesis using h1 h2 c1 c2 c3 c4 by - (intro conjI; assumption)
qed

text \<open>
  C10, as the code has it. Every falsy configured value (absent, \<open>null\<close>, \<open>NaN\<close>, 0)
  gives the batch size 25, and the batch size is never 0. With such a value,
  \<open>tokenize\<close>, \<open>tokenizeByot\<close> and \<open>detokenize\<close> always return; when the result is
  fulfilled, the vault has received \<open>ceil(N / 25)\<close> requests for a non-empty input
  and one request for the empty input, which is sent as a single batch.
\<close>

theorem default_batch_size_terminates:
  "or25 v \<noteq> 0
   \<and> (v \<in> {Absent, CNull, CNaN, CNum 0} \<longrightarrow> or25 v = 25)
   \<and> (tokenize_batchSize (this_batching this) \<in> {Absent, CNull, CNaN, CNum 0} \<longrightarrow>
        (\<exists>r this1. tokenize vault cl va tb records options envArg this = Some (r, this1)
           \<and> (\<forall>res. r = Inr res \<longrightarrow>
                 length (calls this1) = length (calls this)
                   + (if records = [] then 1 else ceil_div (length records) 25)))
        \<and> (\<exists>r this1. tokenizeByot vault cl va tb records envArg this = Some (r, this1)
           \<and> (\<forall>res. r = Inr res \<longrightarrow>
                 length (calls this1) = length (calls this)
                   + (if records = [] then 1 else ceil_div (length records) 25))))
   \<and> (detokenize_batchSize (this_batching this) \<in> {Absent, CNull, CNaN, CNum 0} \<longrightarrow>
        (\<exists>r this1. detokenize vault cl va tokens options envArg this = Some (r, this1)
           \<and> (\<forall>res. r = Inr res \<longrightarrow>
                 length (calls this1) = length (calls this)
                   + (if tokens = [] then 1 else ceil_div (length tokens) 25))))"
proof (intro conjI impI)
  show "or25 v \<noteq> 0" by (rule or25_nonzero)
  show "or25 v = 25" if "v \<in> {Absent, CNull, CNaN, CNum 0}" using that by (rule or25_falsy)
next
  assume "tokenize_batchSize (this_batching this) \<in> {Absent, CNull, CNaN, CNum 0}"
  then have b: "or25 (tokenize_batchSize (this_batching this)) = 25" by (rule or25_falsy)
  show "\<exists>r this1. tokenize vault cl va tb records options envArg this = Some (r, this1)
           \<and> (\<forall>res. r = Inr res \<longrightarrow>
                 length (calls this1) = length (calls this)
                   + (if records = [] then 1 else ceil_div (length records) 25))"
    unfolding tokenize_dispatch b by (rule dispatch25_count) (rule tokenizeBatch_count)
  show "\<exists>r this1. tokenizeByot vault cl va tb records envArg this = Some (r, this1)
           \<and> (\<forall>res. r = Inr res \<longrightarrow>
                 length (calls this1) = length (calls this)
                   + (if records = [] then 1 else ceil_div (length records) 25))"
    unfolding tokenizeByot_dispatch b by (rule dispatch25_count) (rule tokenizeByotBatch_count)
next
  assume "detokenize_batchSize (this_batching this) \<in> {Absent, CNull, CNaN, CNum 0}"
  then have b: "or25 (detokenize_batchSize (this_batching this)) = 25" by (rule or25_falsy)
  show "\<exists>r this1. detokenize vault cl va tokens options envArg this = Some (r, this1)
           \<and> (\<forall>res. r = Inr res \<longrightarrow>
                 length (calls this1) = length (calls this)
                   + (if tokens = [] then 1 else ceil_div (length tokens) 25))"
    unfolding detokenize_dispatch b by (rule dispatch25_count) (rule detokenizeBatch_count)
qed

theorem default_batch_size_terminates_witness:
  "tokenize_batchSize (this_batching (newClient batchingAbsent)) \<in> {Absent, CNull, CNaN, CNum 0}
   \<and> CNum 0 \<in> {Absent, CNull, CNaN, CNum 0} \<and> or25 (CNum 0) = 25
   \<and> map_option fst
        (tokenize (stubVault None) ''c'' ''v'' ''users'' (replicate 26 [(''email'', JStr ''a'')]) []
           None (newClient batchingAbsent))
       = Some (Inr \<lparr>data = replicate 26 [(''email'', JStr ''a'')], errors = None\<rparr>)
   \<and> map_option (length \<circ> calls \<circ> snd)
        (tokenize (stubVault None) ''c'' ''v'' ''users'' (replicate 26 [(''email'', JStr ''a'')]) []
           None (newClient batchingAbsent))
       = Some 2
   \<and> ceil_div 26 25 = 2"
proof -
  let ?records = "replicate 26 [(''email'', JStr ''a'')] :: obj list"
  let ?s = "newClient batchingAbsent"
  let ?run = "tokenize (stubVault None) ''c'' ''v'' ''users'' ?records [] None ?s"
  note main = default_batch_size_terminates [of "CNum 0" ?s "stubVault None" "''c''" "''v''"
      "''users''" ?records "[]" None "[]"]
  have h1: "tokenize_batchSize (this_batching ?s) \<in> {Absent, CNull, CNaN, CNum 0}"
    by (simp add: newClient_def batchingAbsent_def)
  have h2: "CNum 0 \<in> {Absent, CNull, CNaN, CNum 0}" by simp
  have c1: "or25 (CNum 0) = 25"
    by (rule main [THEN conjunct2, THEN conjunct1, rule_format, OF h2])
  have e: "map_option fst ?run = Some (Inr \<lparr>data = ?records, errors = None\<rparr>)"
    by code_simp
  have d: "ceil_div 26 25 = 2" by code_simp
  from main [THEN conjunct2, THEN conjunct2, THEN conjunct1, rule_format, OF h1, THEN conjunct1]
  obtain r this1 where run: "?run = Some (r, this1)"
    and cnt: "\<forall>res. r = Inr res \<longrightarrow>
                 length (calls this1) = length (calls ?s)
                   + (if ?records = [] then 1 else ceil_div (length ?records) 25)"
    by (elim exE conjE) (rule that, assumption+)
  have "r = Inr \<lparr>data = ?records, errors = None\<rparr>" using e run by simp
  then have "length (calls this1) = length (calls ?s)
                   + (if ?records = [] then 1 else ceil_div (length ?records) 25)"
    using cnt by blast
  then have "length (calls this1) = 2" using d by (simp add: newClient_def)
  then have c2: "map_option (length \<circ> calls \<circ> snd) ?run = Some 2" using run by simp
  show ?thesis using h1 h2 c1 e c2 d by - (intro conjI; assumption)
qed

text \<open>
  C10, as stated, at the empty input: with no batch size configured the batch size
  is 25, \<open>tokenize\<close> on the empty list of records is fulfilled after one request to
  the vault, and \<open>ceil(0 / 25)\<close> is 0.
\<close>

theorem default_batch_empty_list_counterexample:
  "tokenize_batchSize (this_batching (newClient batchingAbsent)) = Absent
   \<and> or25 (tokenize_batchSize (this_batching (newClient batchingAbsent))) = 25
   \<and> map_option fst (tokenize (stubVault None) ''c'' ''v'' ''users'' [] [] None (newClient batchingAbsent))
       = Some (Inr \<lparr>data = [], errors = None\<rparr>)
   \<and> map_option (length \<circ> calls \<circ> snd)
        (tokenize (stubVault None) ''c'' ''v'' ''users'' [] [] None (newClient batchingAbsent))
       = Some 1
   \<and> ceil_div (length ([] :: obj list)) 25 = 0"
  by code_simp

end
